theory Spec2Isabelle
  imports Main "HOL-Library.Multiset"
begin

section \<open>JavaScript values\<close>

text \<open>
  A JavaScript string is its sequence of UTF-16 code units, here a list of numbers;
  \<open>js\<close> writes one from its ASCII characters.
\<close>

type_synonym js_string = "nat list"

definition js :: "string \<Rightarrow> js_string" where
  "js s = map of_char s"

text \<open>
  Documents are the values \<open>JSON.parse\<close> makes: \<open>null\<close>, booleans, numbers, strings,
  arrays and plain objects (association lists in key order). Numbers are modelled as
  integers: the extractor only asks of a number whether it is zero. Reading a property
  can leave the JSON values: \<open>JUndefined\<close> is what a missing property or array element
  reads as, and a property that a plain object inherits is a function of
  \<open>Object.prototype\<close> (named here by the property it is found under) or, for
  \<open>__proto__\<close>, \<open>Object.prototype\<close> itself.
\<close>

datatype json =
    JUndefined
  | JNull
  | JBool bool
  | JNum int
  | JStr js_string
  | JArr "json list"
  | JObj "(js_string \<times> json) list"
  | JFunction js_string
  | JObjectPrototype

text \<open>\<open>!value\<close>: the falsy values of JavaScript.\<close>

fun falsy :: "json \<Rightarrow> bool" where
  "falsy JUndefined = True"
| "falsy JNull = True"
| "falsy (JBool b) = (\<not> b)"
| "falsy (JNum n) = (n = 0)"
| "falsy (JStr s) = (s = [])"
| "falsy (JArr xs) = False"
| "falsy (JObj kvs) = False"
| "falsy (JFunction f) = False"
| "falsy JObjectPrototype = False"

text \<open>\<open>typeof value === 'object'\<close>: true of null, arrays and objects, not of functions.\<close>

fun typeof_object :: "json \<Rightarrow> bool" where
  "typeof_object JNull = True"
| "typeof_object (JArr xs) = True"
| "typeof_object (JObj kvs) = True"
| "typeof_object JObjectPrototype = True"
| "typeof_object v = False"

subsection \<open>Reading a property\<close>

text \<open>
  The own properties of \<open>Object.prototype\<close>: eleven functions, and the accessor
  \<open>__proto__\<close>, which reads \<open>null\<close> on \<open>Object.prototype\<close> itself.
\<close>

definition object_prototype_functions :: "js_string list" where
  "object_prototype_functions =
     map js [''constructor'', ''__defineGetter__'', ''__defineSetter__'', ''hasOwnProperty'',
             ''__lookupGetter__'', ''__lookupSetter__'', ''isPrototypeOf'',
             ''propertyIsEnumerable'', ''toString'', ''valueOf'', ''toLocaleString'']"

definition object_prototype_get :: "js_string \<Rightarrow> json" where
  "object_prototype_get k =
     (if k \<in> set object_prototype_functions then JFunction k
      else if k = js ''__proto__'' then JNull
      else JUndefined)"

text \<open>
  \<open>value[prop]\<close> on a plain object: the own property when there is one, else what the
  object inherits from \<open>Object.prototype\<close>, else \<open>undefined\<close>.
\<close>

definition obj_get :: "(js_string \<times> json) list \<Rightarrow> js_string \<Rightarrow> json" where
  "obj_get kvs k =
     (case map_of kvs k of
        Some v \<Rightarrow> v
      | None \<Rightarrow> if k = js ''__proto__'' then JObjectPrototype else object_prototype_get k)"

subsection \<open>\<open>parseInt(s, 10)\<close>\<close>

text \<open>
  The code units \<open>parseInt\<close> skips at the start: the white space and line terminators
  of ECMAScript (tab, line feed, vertical tab, form feed, carriage return, space,
  U+00A0, U+1680, U+2000 to U+200A, U+2028, U+2029, U+202F, U+205F, U+3000, U+FEFF).
\<close>

definition is_ws :: "nat \<Rightarrow> bool" where
  "is_ws c =
     (c \<in> set [9, 10, 11, 12, 13, 32, 160, 5760, 8232, 8233, 8239, 8287, 12288, 65279]
      \<or> (8192 \<le> c \<and> c \<le> 8202))"

definition is_digit :: "nat \<Rightarrow> bool" where
  "is_digit c = (48 \<le> c \<and> c \<le> 57)"

definition digit_val :: "nat \<Rightarrow> int" where
  "digit_val c = int c - 48"

definition digits_val :: "js_string \<Rightarrow> int" where
  "digits_val ds = foldl (\<lambda>acc c. 10 * acc + digit_val c) 0 ds"

text \<open>
  The number \<open>parseInt\<close> returns: \<open>NaN\<close>, an integer, or, when the digits stand for more
  than \<open>2^53\<close>, a double near their value, of which only the sign is kept (\<open>Huge True\<close> is
  negative).
\<close>

datatype js_number = NaN | Finite int | Huge bool

text \<open>
  \<open>parseInt(s, 10)\<close>: leading white space is skipped, one sign is read, then the longest
  run of decimal digits; \<open>NaN\<close> when no digit is there. (45 is \<open>-\<close>, 43 is \<open>+\<close>.)
\<close>

definition parseInt :: "js_string \<Rightarrow> js_number" where
  "parseInt s =
     (let t = dropWhile is_ws s;
          neg = (t \<noteq> [] \<and> hd t = 45);
          u = (if t \<noteq> [] \<and> (hd t = 45 \<or> hd t = 43) then tl t else t);
          ds = takeWhile is_digit u
      in if ds = [] then NaN
         else if digits_val ds \<le> 2 ^ 53
           then Finite (if neg then - digits_val ds else digits_val ds)
         else Huge neg)"

text \<open>
  \<open>asInt < value.length\<close> and \<open>value[asInt]\<close>. An array has fewer than \<open>2^32\<close> elements, so
  no length is below a double of \<open>2^53\<close> or more; an index outside \<open>0 .. length - 1\<close> reads
  \<open>undefined\<close>.
\<close>

fun less_than_length :: "js_number \<Rightarrow> nat \<Rightarrow> bool" where
  "less_than_length NaN n = False"
| "less_than_length (Finite i) n = (i < int n)"
| "less_than_length (Huge neg) n = neg"

fun arr_get :: "json list \<Rightarrow> js_number \<Rightarrow> json" where
  "arr_get xs (Finite i) = (if 0 \<le> i \<and> i < int (length xs) then xs ! nat i else JUndefined)"
| "arr_get xs NaN = JUndefined"
| "arr_get xs (Huge neg) = JUndefined"

subsection \<open>\<open>String.prototype.split('.')\<close>\<close>

text \<open>46 is the full stop.\<close>

fun split_dot :: "js_string \<Rightarrow> js_string list" where
  "split_dot [] = [[]]"
| "split_dot (c # cs) =
     (if c = 46 then [] # split_dot cs
      else (case split_dot cs of [] \<Rightarrow> [[c]] | x # xs \<Rightarrow> (c # x) # xs))"

section \<open>The path extractor of \<open>distinct\<close>\<close>

text \<open>
  \<open>path[index]\<close>; past the end it reads \<open>undefined\<close>, which \<open>parseInt\<close> and the property
  access both turn into the string \<open>undefined\<close>.
\<close>

definition path_at :: "js_string list \<Rightarrow> nat \<Rightarrow> js_string" where
  "path_at path index = (if index < length path then path ! index else js ''undefined'')"

text \<open>
  The measure by which the extractor ends: it only ever goes from a value to a part of
  it, or from an object to \<open>Object.prototype\<close>, or from there to a function.
\<close>

definition rank :: "json \<Rightarrow> nat" where
  "rank v =
     (case v of
        JUndefined \<Rightarrow> 0
      | JNull \<Rightarrow> 0
      | JFunction f \<Rightarrow> 0
      | JObjectPrototype \<Rightarrow> 1
      | _ \<Rightarrow> 2 + size v)"

lemma rank_le: "rank v \<le> 2 + size v"
  by (cases v) (simp_all add: rank_def)

lemma rank_elem: "x \<in> set xs \<Longrightarrow> rank x < rank (JArr xs)"
proof -
  assume "x \<in> set xs"
  then have "size x \<le> size_list size xs" by (simp add: size_list_estimation')
  with rank_le[of x] show ?thesis by (simp add: rank_def)
qed

lemma rank_arr_get: "rank (arr_get xs a) < rank (JArr xs)"
proof (cases a)
  case (Finite i)
  show ?thesis
  proof (cases "0 \<le> i \<and> i < int (length xs)")
    case True
    then have "nat i < length xs" by (simp add: nat_less_iff)
    then have "xs ! nat i \<in> set xs" by simp
    from rank_elem[OF this] True Finite show ?thesis by simp
  next
    case False
    with Finite show ?thesis by (auto simp: rank_def)
  qed
qed (simp_all add: rank_def)

lemma rank_map_of:
  "map_of kvs k = Some v \<Longrightarrow> size v \<le> size_list (size_prod (\<lambda>_. 0) size) kvs"
  by (induction kvs) (auto split: if_splits)

lemma rank_object_prototype_get: "rank (object_prototype_get k) = 0"
  by (simp add: object_prototype_get_def rank_def)

lemma rank_obj_get: "rank (obj_get kvs k) < rank (JObj kvs)"
proof (cases "map_of kvs k")
  case None
  then show ?thesis
    by (simp add: obj_get_def rank_object_prototype_get) (simp add: rank_def)
next
  case (Some v)
  from rank_map_of[OF this] rank_le[of v] Some show ?thesis
    by (simp add: obj_get_def rank_def)
qed

text \<open>
  The inner \<open>extract\<close> of \<open>mkDistinctPathExtractor\<close>. Its only effect is
  \<open>values.push\<close>, so the model returns the values it pushes, in push order.
\<close>

function extract_path :: "js_string list \<Rightarrow> nat \<Rightarrow> json \<Rightarrow> json list" where
  "extract_path path index v =
     (if falsy v then []
      else if index = length path then (case v of JArr xs \<Rightarrow> xs | _ \<Rightarrow> [v])
      else (case v of
              JArr xs \<Rightarrow>
                (if parseInt (path_at path index) = NaN
                 then concat (map (extract_path path index) xs)
                 else if less_than_length (parseInt (path_at path index)) (length xs)
                   then extract_path path (index + 1) (arr_get xs (parseInt (path_at path index)))
                 else [])
            | JObj kvs \<Rightarrow> extract_path path (index + 1) (obj_get kvs (path_at path index))
            | JObjectPrototype \<Rightarrow>
                extract_path path (index + 1) (object_prototype_get (path_at path index))
            | _ \<Rightarrow> []))"
  by pat_completeness auto
termination
proof (relation "measure (\<lambda>(path, index, v). rank v)", goal_cases)
  case 1
  show ?case by simp
next
  case (2 path index v xs x)
  then show ?case by (simp add: rank_elem)
next
  case (3 path index v xs)
  then show ?case by (simp add: rank_arr_get)
next
  case (4 path index v kvs)
  then show ?case by (simp add: rank_obj_get)
next
  case (5 path index v)
  then show ?case by (simp add: rank_object_prototype_get) (simp add: rank_def)
qed

declare extract_path.simps [simp del]

text \<open>
  The values the path leads to in a document, before an array among them is spread:
  the other way to say what the extractor returns.
\<close>

function terminals :: "js_string list \<Rightarrow> nat \<Rightarrow> json \<Rightarrow> json list" where
  "terminals path index v =
     (if falsy v then []
      else if index = length path then [v]
      else (case v of
              JArr xs \<Rightarrow>
                (if parseInt (path_at path index) = NaN
                 then concat (map (terminals path index) xs)
                 else if less_than_length (parseInt (path_at path index)) (length xs)
                   then terminals path (index + 1) (arr_get xs (parseInt (path_at path index)))
                 else [])
            | JObj kvs \<Rightarrow> terminals path (index + 1) (obj_get kvs (path_at path index))
            | JObjectPrototype \<Rightarrow>
                terminals path (index + 1) (object_prototype_get (path_at path index))
            | _ \<Rightarrow> []))"
  by pat_completeness auto
termination
proof (relation "measure (\<lambda>(path, index, v). rank v)", goal_cases)
  case 1
  show ?case by simp
next
  case (2 path index v xs x)
  then show ?case by (simp add: rank_elem)
next
  case (3 path index v xs)
  then show ?case by (simp add: rank_arr_get)
next
  case (4 path index v kvs)
  then show ?case by (simp add: rank_obj_get)
next
  case (5 path index v)
  then show ?case by (simp add: rank_object_prototype_get) (simp add: rank_def)
qed

declare terminals.simps [simp del]

text \<open>\<open>values.push(...value)\<close> for an array, \<open>values.push(value)\<close> otherwise.\<close>

fun spread :: "json \<Rightarrow> json list" where
  "spread (JArr xs) = xs"
| "spread v = [v]"

text \<open>Decimal notation, to say which segments are array indices.\<close>

fun decimal :: "nat \<Rightarrow> js_string" where
  "decimal n = (if n < 10 then [48 + n] else decimal (n div 10) @ [48 + n mod 10])"

declare decimal.simps [simp del]

text \<open>
  \<open>mkDistinctPathExtractor(path)\<close> returns a closure over one array \<open>values\<close>, created
  once per extractor. The closure is modelled by its captured variables; calling it
  pushes onto \<open>values\<close> and returns that same array.
\<close>

record extractor =
  ex_path :: js_string
  ex_values :: "json list"

definition mkDistinctPathExtractor :: "js_string \<Rightarrow> extractor" where
  "mkDistinctPathExtractor path = \<lparr>ex_path = path, ex_values = []\<rparr>"

definition call_extractor :: "extractor \<Rightarrow> json \<Rightarrow> json list \<times> extractor" where
  "call_extractor e doc =
     (let vs = ex_values e @ extract_path (split_dot (ex_path e)) 0 doc
      in (vs, e\<lparr>ex_values := vs\<rparr>))"

subsection \<open>\<open>Collection.distinct\<close>\<close>

datatype js_error =
    Error string
  | TypeError

definition assertPathSafe4Distinct :: "js_string \<Rightarrow> js_error option" where
  "assertPathSafe4Distinct path =
     (let split = split_dot path
      in if length split = 0 then Some (Error ''Path cannot be empty'')
         else if list_ex (\<lambda>p. p = []) split
           then Some (Error ''Path cannot contain empty segments'')
         else None)"

text \<open>
  The deduplication of \<open>distinct\<close>: \<open>seen\<close> is the \<open>Set\<close> (in insertion order), \<open>ret\<close> the
  result. A value whose \<open>typeof\<close> is \<open>object\<close> is looked up by its \<open>objectHash\<close> (a
  string, the parameter \<open>h\<close>), any other value by itself.
\<close>

definition seen_key :: "(json \<Rightarrow> js_string) \<Rightarrow> json \<Rightarrow> json" where
  "seen_key h v = (if typeof_object v then JStr (h v) else v)"

fun dedup_values ::
  "(json \<Rightarrow> js_string) \<Rightarrow> json list \<Rightarrow> json list \<times> json list \<Rightarrow> json list \<times> json list"
  where
  "dedup_values h [] (seen, ret) = (seen, ret)"
| "dedup_values h (v # vs) (seen, ret) =
     (if seen_key h v \<in> set seen then dedup_values h vs (seen, ret)
      else dedup_values h vs (seen @ [seen_key h v], ret @ [v]))"

text \<open>
  The \<open>for await\<close> loop over the cursor; \<open>docs\<close> are the documents the cursor yields for
  the filter and projection (the cursor and the remote service are not part of this
  function).
\<close>

fun distinct_loop ::
  "(json \<Rightarrow> js_string) \<Rightarrow> json list \<Rightarrow> extractor \<Rightarrow> json list \<times> json list \<Rightarrow> json list"
  where
  "distinct_loop h [] e (seen, ret) = ret"
| "distinct_loop h (doc # docs) e (seen, ret) =
     (let (vs, e') = call_extractor e doc
      in distinct_loop h docs e' (dedup_values h vs (seen, ret)))"

definition distinct_docs ::
  "(json \<Rightarrow> js_string) \<Rightarrow> js_string \<Rightarrow> json list \<Rightarrow> js_error + json list" where
  "distinct_docs h key docs =
     (case assertPathSafe4Distinct key of
        Some err \<Rightarrow> Inl err
      | None \<Rightarrow> Inr (distinct_loop h docs (mkDistinctPathExtractor key) ([], [])))"

section \<open>Commands, responses and the command executor\<close>

text \<open>
  A filter is an object; \<open>Object.keys(filter)\<close> are the keys of the association list.
\<close>

type_synonym filter = "(js_string \<times> json) list"

text \<open>The commands \<open>collection.ts\<close> builds and hands to \<open>executeCommand\<close>.\<close>

datatype command =
    InsertOneCommand json
  | InsertManyCommand "json list" bool
  | UpdateOneCommand filter json bool
  | UpdateManyCommand filter json bool
  | FindOneAndReplaceCommand filter json bool
  | DeleteOneCommand filter
  | DeleteManyCommand filter

text \<open>
  The \<open>status\<close> object of a raw response, with the fields the collection reads; every
  field is optional, as is \<open>status\<close> itself.
\<close>

record resp_status =
  st_insertedIds :: "json list option"
  st_modifiedCount :: "int option"
  st_matchedCount :: "int option"
  st_deletedCount :: "int option"
  st_upsertedId :: "json option"
  st_moreData :: "bool option"

record response =
  status :: "resp_status option"

text \<open>
  \<open>e.detailedErrorDescriptors[0]\<close> of a \<open>DataAPIResponseError\<close>: the command that failed
  and the raw response that reported the failure.
\<close>

record descriptor =
  desc_command :: command
  desc_rawResponse :: response

text \<open>
  What \<open>executeCommand\<close> throws: a \<open>DataAPIResponseError\<close> (an operational error of the
  service, reported in a well-formed response), or anything else (a 5xx, a network
  failure, a timeout), which is opaque here.
\<close>

datatype thrown =
    ResponseError descriptor
  | OtherError string

datatype outcome =
    Resolved response
  | Rejected thrown

text \<open>
  \<open>HTTPClient.executeCommand\<close> is not part of the collection: the remote service is a
  parameter, a handler that answers a command in a service state. The world of a call
  is that state together with the commands sent so far, in the order they were sent.
\<close>

type_synonym 's handler = "'s \<Rightarrow> command \<Rightarrow> outcome \<times> 's"

record 's world =
  srv :: 's
  sent :: "command list"

definition executeCommand :: "'s handler \<Rightarrow> command \<Rightarrow> 's world \<Rightarrow> outcome \<times> 's world" where
  "executeCommand h cmd w =
     (case h (srv w) cmd of (out, s') \<Rightarrow> (out, \<lparr>srv = s', sent = sent w @ [cmd]\<rparr>))"

subsection \<open>Results and errors of the collection\<close>

record BulkWriteResult =
  deletedCount :: int
  insertedCount :: int
  matchedCount :: int
  modifiedCount :: int
  upsertedCount :: int
  upsertedIds :: "nat \<rightharpoonup> json"
  raw :: "resp_status list"

text \<open>\<open>new BulkWriteResult()\<close>: the defaults of the constructor.\<close>

definition new_BulkWriteResult :: BulkWriteResult where
  "new_BulkWriteResult =
     \<lparr>deletedCount = 0, insertedCount = 0, matchedCount = 0, modifiedCount = 0,
      upsertedCount = 0, upsertedIds = Map.empty, raw = []\<rparr>"

datatype err_class = BulkWriteError | InsertManyError | DeleteManyError

text \<open>The partial result an aggregated error carries.\<close>

datatype partial_result =
    BulkWritePartial BulkWriteResult
  | InsertManyPartial "json list" nat
  | DeleteManyPartial int

datatype error =
    JsError js_error
  | ExecutorError string
  | CumulativeError err_class "command list" "response list" partial_result

text \<open>
  Modelled from the spec: \<open>mkRespErrorFromResponses\<close> and \<open>mkRespErrorFromResponse\<close> of
  \<open>errors.ts\<close> are not among the sources. Following the spec (a single aggregated error
  carrying the accumulator and the list of failed operations), the error they make is
  the record of its class, the failed commands, their raw responses and the partial
  result.
\<close>

definition mkRespErrorFromResponses ::
  "err_class \<Rightarrow> command list \<Rightarrow> response list \<Rightarrow> partial_result \<Rightarrow> error" where
  "mkRespErrorFromResponses cls commands raws attributes =
     CumulativeError cls commands raws attributes"

definition mkRespErrorFromResponse ::
  "err_class \<Rightarrow> command \<Rightarrow> response \<Rightarrow> partial_result \<Rightarrow> error" where
  "mkRespErrorFromResponse cls cmd rawResp attributes =
     mkRespErrorFromResponses cls [cmd] [rawResp] attributes"

text \<open>\<open>x ?? 0\<close> and \<open>xs ?? []\<close>.\<close>

definition or_zero :: "int option \<Rightarrow> int" where
  "or_zero x = (case x of None \<Rightarrow> 0 | Some n \<Rightarrow> n)"

definition or_nil :: "'a list option \<Rightarrow> 'a list" where
  "or_nil x = (case x of None \<Rightarrow> [] | Some xs \<Rightarrow> xs)"

text \<open>\<open>if (resp.upsertedId)\<close>: the field is there and truthy.\<close>

definition has_upsertedId :: "resp_status \<Rightarrow> bool" where
  "has_upsertedId resp = (case st_upsertedId resp of None \<Rightarrow> False | Some v \<Rightarrow> \<not> falsy v)"

definition addToBulkWriteResult :: "BulkWriteResult \<Rightarrow> resp_status \<Rightarrow> nat \<Rightarrow> BulkWriteResult" where
  "addToBulkWriteResult result resp i =
     (let r1 = result
            \<lparr>insertedCount := insertedCount result + int (length (or_nil (st_insertedIds resp))),
             modifiedCount := modifiedCount result + or_zero (st_modifiedCount resp),
             matchedCount := matchedCount result + or_zero (st_matchedCount resp),
             deletedCount := deletedCount result + or_zero (st_deletedCount resp)\<rparr>;
          r2 = (if has_upsertedId resp
                then r1\<lparr>upsertedCount := upsertedCount r1 + 1,
                        upsertedIds := (upsertedIds r1)(i := st_upsertedId resp)\<rparr>
                else r1)
      in r2\<lparr>raw := raw r2 @ [resp]\<rparr>)"

subsection \<open>Bulk operation descriptors\<close>

datatype bulk_op =
    InsertOne json
  | ReplaceOne filter json "bool option"
  | UpdateOne filter json "bool option"
  | UpdateMany filter json "bool option"
  | DeleteOne filter
  | DeleteMany filter
  | UnknownOperation string

text \<open>\<open>upsert ?? false\<close>.\<close>

definition or_false :: "bool option \<Rightarrow> bool" where
  "or_false x = (case x of None \<Rightarrow> False | Some b \<Rightarrow> b)"

fun buildBulkWriteCommands :: "bulk_op \<Rightarrow> js_error + command" where
  "buildBulkWriteCommands (InsertOne document) = Inr (InsertOneCommand document)"
| "buildBulkWriteCommands (UpdateOne f update upsert) =
     Inr (UpdateOneCommand f update (or_false upsert))"
| "buildBulkWriteCommands (UpdateMany f update upsert) =
     Inr (UpdateManyCommand f update (or_false upsert))"
| "buildBulkWriteCommands (ReplaceOne f replacement upsert) =
     Inr (FindOneAndReplaceCommand f replacement (or_false upsert))"
| "buildBulkWriteCommands (DeleteOne f) = Inr (DeleteOneCommand f)"
| "buildBulkWriteCommands (DeleteMany f) = Inr (DeleteManyCommand f)"
| "buildBulkWriteCommands (UnknownOperation commandName) =
     Inl (Error (''Unknown bulk write operation: '' @ commandName))"

text \<open>\<open>operations.map(buildBulkWriteCommands)\<close>: the first throw ends the map.\<close>

fun build_commands :: "bulk_op list \<Rightarrow> js_error + command list" where
  "build_commands [] = Inr []"
| "build_commands (operation # operations) =
     (case buildBulkWriteCommands operation of
        Inl e \<Rightarrow> Inl e
      | Inr c \<Rightarrow> (case build_commands operations of Inl e \<Rightarrow> Inl e | Inr cs \<Rightarrow> Inr (c # cs)))"

section \<open>Ordered execution\<close>

text \<open>
  \<open>bulkWriteOrdered\<close>: the \<open>for\<close> loop in its \<open>try\<close>, with the \<open>catch\<close> at each way out.
  A response without \<open>status\<close> makes \<open>addToBulkWriteResult\<close> read a property of
  \<open>undefined\<close>: a \<open>TypeError\<close>, which the \<open>catch\<close> rethrows.
\<close>

function bulkWriteOrdered_loop ::
  "'s handler \<Rightarrow> command list \<Rightarrow> nat \<Rightarrow> BulkWriteResult \<Rightarrow> 's world
     \<Rightarrow> (error + BulkWriteResult) \<times> 's world" where
  "bulkWriteOrdered_loop h operations i results w =
     (if i < length operations then
        (case executeCommand h (operations ! i) w of
           (Resolved resp, w') \<Rightarrow>
             (case status resp of
                None \<Rightarrow> (Inl (JsError TypeError), w')
              | Some st \<Rightarrow>
                  bulkWriteOrdered_loop h operations (i + 1) (addToBulkWriteResult results st i) w')
         | (Rejected (OtherError e), w') \<Rightarrow> (Inl (ExecutorError e), w')
         | (Rejected (ResponseError desc), w') \<Rightarrow>
             (Inl (mkRespErrorFromResponse BulkWriteError (desc_command desc) (desc_rawResponse desc)
                (BulkWritePartial
                   (case status (desc_rawResponse desc) of
                      None \<Rightarrow> results
                    | Some st \<Rightarrow> addToBulkWriteResult results st i))), w'))
      else (Inr results, w))"
  by pat_completeness auto
termination
  by (relation "measure (\<lambda>(h, operations, i, results, w). length operations - i)") auto

declare bulkWriteOrdered_loop.simps [simp del]

definition bulkWriteOrdered ::
  "'s handler \<Rightarrow> command list \<Rightarrow> 's world \<Rightarrow> (error + BulkWriteResult) \<times> 's world" where
  "bulkWriteOrdered h operations w = bulkWriteOrdered_loop h operations 0 new_BulkWriteResult w"

text \<open>\<open>documents.slice(i, j)\<close> for \<open>0 \<le> i \<le> j\<close>.\<close>

definition slice :: "'a list \<Rightarrow> nat \<Rightarrow> nat \<Rightarrow> 'a list" where
  "slice xs i j = take (j - i) (drop i xs)"

text \<open>The module-level \<open>insertMany\<close>: one \<open>insertMany\<close> command for one chunk.\<close>

definition insertMany ::
  "'s handler \<Rightarrow> json list \<Rightarrow> bool \<Rightarrow> 's world \<Rightarrow> (thrown + json list) \<times> 's world" where
  "insertMany h documents ordered w =
     (case executeCommand h (InsertManyCommand documents ordered) w of
        (Resolved resp, w') \<Rightarrow>
          (Inr (case status resp of None \<Rightarrow> [] | Some st \<Rightarrow> or_nil (st_insertedIds st)), w')
      | (Rejected e, w') \<Rightarrow> (Inl e, w'))"

text \<open>\<open>desc.rawResponse.status?.insertedIds ?? []\<close>.\<close>

definition raw_insertedIds :: "descriptor \<Rightarrow> json list" where
  "raw_insertedIds desc =
     (case status (desc_rawResponse desc) of None \<Rightarrow> [] | Some st \<Rightarrow> or_nil (st_insertedIds st))"

text \<open>
  \<open>insertManyOrdered\<close>. The loop adds \<open>chunkSize\<close> to \<open>i\<close>, so with a chunk size of zero
  it need not end: not returning is the value \<open>None\<close>.
\<close>

partial_function (option) insertManyOrdered_loop ::
  "'s handler \<Rightarrow> json list \<Rightarrow> nat \<Rightarrow> nat \<Rightarrow> json list \<Rightarrow> 's world
     \<Rightarrow> ((error + json list) \<times> 's world) option" where
  "insertManyOrdered_loop h documents chunkSize i insertedIds w =
     (if i < length documents then
        (case insertMany h (slice documents i (i + chunkSize)) True w of
           (Inr inserted, w') \<Rightarrow>
             insertManyOrdered_loop h documents chunkSize (i + chunkSize) (insertedIds @ inserted) w'
         | (Inl (OtherError e), w') \<Rightarrow> Some (Inl (ExecutorError e), w')
         | (Inl (ResponseError desc), w') \<Rightarrow>
             Some (Inl (mkRespErrorFromResponse InsertManyError (desc_command desc)
                     (desc_rawResponse desc)
                     (InsertManyPartial (insertedIds @ raw_insertedIds desc)
                        (length (insertedIds @ raw_insertedIds desc)))), w'))
      else Some (Inr insertedIds, w))"

definition insertManyOrdered ::
  "'s handler \<Rightarrow> json list \<Rightarrow> nat \<Rightarrow> 's world \<Rightarrow> ((error + json list) \<times> 's world) option" where
  "insertManyOrdered h documents chunkSize w =
     insertManyOrdered_loop h documents chunkSize 0 [] w"

section \<open>\<open>Collection.deleteMany\<close>\<close>

definition empty_filter_message :: string where
  "empty_filter_message =
     ''Can'' @ [CHR 0x27] @ ''t pass an empty filter to deleteMany, ''
     @ ''use deleteAll instead'' @ '' if you really want to delete everything''"

text \<open>\<open>resp.status?.moreData\<close>, as a condition.\<close>

definition moreData :: "response \<Rightarrow> bool" where
  "moreData resp = (case status resp of None \<Rightarrow> False | Some st \<Rightarrow> st_moreData st = Some True)"

text \<open>\<open>resp.status?.deletedCount ?? 0\<close>.\<close>

definition resp_deletedCount :: "response \<Rightarrow> int" where
  "resp_deletedCount resp = (case status resp of None \<Rightarrow> 0 | Some st \<Rightarrow> or_zero (st_deletedCount st))"

text \<open>
  The \<open>while (!resp || resp.status?.moreData)\<close> loop of \<open>deleteMany\<close>, which runs for as
  long as the service reports more data.
\<close>

partial_function (option) deleteMany_loop ::
  "'s handler \<Rightarrow> command \<Rightarrow> response option \<Rightarrow> int \<Rightarrow> 's world
     \<Rightarrow> ((error + int) \<times> 's world) option" where
  "deleteMany_loop h cmd resp numDeleted w =
     (if (case resp of None \<Rightarrow> True | Some r \<Rightarrow> moreData r) then
        (case executeCommand h cmd w of
           (Resolved resp', w') \<Rightarrow>
             deleteMany_loop h cmd (Some resp') (numDeleted + resp_deletedCount resp') w'
         | (Rejected (OtherError e), w') \<Rightarrow> Some (Inl (ExecutorError e), w')
         | (Rejected (ResponseError desc), w') \<Rightarrow>
             Some (Inl (mkRespErrorFromResponse DeleteManyError cmd (desc_rawResponse desc)
                     (DeleteManyPartial (numDeleted + resp_deletedCount (desc_rawResponse desc)))),
                   w'))
      else Some (Inr numDeleted, w))"

text \<open>
  \<open>deleteMany(filter = {})\<close>: the argument may be left out. The result is the
  \<open>deletedCount\<close> of the \<open>DeleteManyResult\<close>.
\<close>

definition deleteMany ::
  "'s handler \<Rightarrow> filter option \<Rightarrow> 's world \<Rightarrow> ((error + int) \<times> 's world) option" where
  "deleteMany h filter_arg w =
     (let f = (case filter_arg of None \<Rightarrow> [] | Some f \<Rightarrow> f)
      in if length (map fst f) = 0 then Some (Inl (JsError (Error empty_filter_message)), w)
         else deleteMany_loop h (DeleteManyCommand f) None 0 w)"

section \<open>A small remote service\<close>

text \<open>
  A service to run the collection against at concrete inputs: it keeps the list of the
  ids it holds. Inserting an id it holds is an operational error (reported with the ids
  inserted before it, for \<open>insertMany\<close>); inserting a document without \<open>_id\<close> is a
  failure of the service itself; an update with \<open>upsert\<close> of an id it does not hold
  inserts it and reports it as \<open>upsertedId\<close>; an \<open>updateMany\<close> matches every id, and
  with a falsy update it is an operational error that reports what it matched.
\<close>

definition empty_status :: resp_status where
  "empty_status =
     \<lparr>st_insertedIds = None, st_modifiedCount = None, st_matchedCount = None,
      st_deletedCount = None, st_upsertedId = None, st_moreData = None\<rparr>"

definition doc_id :: "json \<Rightarrow> json" where
  "doc_id doc = (case doc of JObj kvs \<Rightarrow> obj_get kvs (js ''_id'') | _ \<Rightarrow> JUndefined)"

definition failure_of :: "command \<Rightarrow> resp_status option \<Rightarrow> outcome" where
  "failure_of cmd st =
     Rejected (ResponseError \<lparr>desc_command = cmd, desc_rawResponse = \<lparr>status = st\<rparr>\<rparr>)"

fun insert_docs :: "json list \<Rightarrow> json list \<Rightarrow> json list \<times> bool" where
  "insert_docs ids [] = ([], True)"
| "insert_docs ids (doc # docs) =
     (if doc_id doc \<in> set ids then ([], False)
      else (case insert_docs (ids @ [doc_id doc]) docs of (ins, ok) \<Rightarrow> (doc_id doc # ins, ok)))"

fun id_service :: "json list handler" where
  "id_service ids (InsertOneCommand doc) =
     (if falsy (doc_id doc) then (Rejected (OtherError ''503''), ids)
      else if doc_id doc \<in> set ids then (failure_of (InsertOneCommand doc) None, ids)
      else (Resolved \<lparr>status = Some (empty_status\<lparr>st_insertedIds := Some [doc_id doc]\<rparr>)\<rparr>,
            ids @ [doc_id doc]))"
| "id_service ids (InsertManyCommand docs ordered) =
     (case insert_docs ids docs of
        (ins, True) \<Rightarrow>
          (Resolved \<lparr>status = Some (empty_status\<lparr>st_insertedIds := Some ins\<rparr>)\<rparr>, ids @ ins)
      | (ins, False) \<Rightarrow>
          (failure_of (InsertManyCommand docs ordered)
             (Some (empty_status\<lparr>st_insertedIds := Some ins\<rparr>)), ids @ ins))"
| "id_service ids (UpdateOneCommand f update upsert) =
     (if obj_get f (js ''_id'') \<in> set ids
      then (Resolved \<lparr>status = Some (empty_status\<lparr>st_matchedCount := Some 1, st_modifiedCount := Some 1\<rparr>)\<rparr>, ids)
      else if upsert
      then (Resolved \<lparr>status = Some (empty_status\<lparr>st_matchedCount := Some 0, st_modifiedCount := Some 0,
                st_upsertedId := Some (obj_get f (js ''_id''))\<rparr>)\<rparr>, ids @ [obj_get f (js ''_id'')])
      else (Resolved \<lparr>status = Some (empty_status\<lparr>st_matchedCount := Some 0, st_modifiedCount := Some 0\<rparr>)\<rparr>, ids))"
| "id_service ids (UpdateManyCommand f update upsert) =
     (if falsy update
      then (failure_of (UpdateManyCommand f update upsert)
              (Some (empty_status\<lparr>st_matchedCount := Some (int (length ids)),
                                  st_modifiedCount := Some 0\<rparr>)), ids)
      else (Resolved \<lparr>status = Some (empty_status\<lparr>st_matchedCount := Some (int (length ids)),
                                  st_modifiedCount := Some (int (length ids))\<rparr>)\<rparr>, ids))"
| "id_service ids (DeleteOneCommand f) =
     (if obj_get f (js ''_id'') \<in> set ids
      then (Resolved \<lparr>status = Some (empty_status\<lparr>st_deletedCount := Some 1\<rparr>)\<rparr>,
            removeAll (obj_get f (js ''_id'')) ids)
      else (Resolved \<lparr>status = Some (empty_status\<lparr>st_deletedCount := Some 0\<rparr>)\<rparr>, ids))"
| "id_service ids cmd = (Resolved \<lparr>status = Some empty_status\<rparr>, ids)"

definition with_id :: "string \<Rightarrow> json" where
  "with_id s = JObj [(js ''_id'', JStr (js s))]"

text \<open>The operations \<open>insertOne(A)\<close>, \<open>insertOne(A)\<close>, \<open>insertOne(B)\<close>.\<close>

definition abc_ops :: "command list" where
  "abc_ops = [InsertOneCommand (with_id ''A''), InsertOneCommand (with_id ''A''),
              InsertOneCommand (with_id ''B'')]"

text \<open>
  The operations \<open>insertOne(A)\<close>, \<open>updateOne({_id: B}, upsert)\<close>, \<open>updateMany\<close> with a
  falsy update, \<open>insertOne(C)\<close>.
\<close>

definition upsert_ops :: "command list" where
  "upsert_ops = [InsertOneCommand (with_id ''A''),
                 UpdateOneCommand [(js ''_id'', JStr (js ''B''))] (JObj []) True,
                 UpdateManyCommand [] JNull False,
                 InsertOneCommand (with_id ''C'')]"

section \<open>What the orchestrators are to compute\<close>

text \<open>
  The answers of the service to a list of commands sent one after the other, and the
  state this leaves it in.
\<close>

fun answers :: "'s handler \<Rightarrow> 's \<Rightarrow> command list \<Rightarrow> outcome list" where
  "answers h s [] = []"
| "answers h s (c # cs) = (case h s c of (out, s') \<Rightarrow> out # answers h s' cs)"

fun srv_after :: "'s handler \<Rightarrow> 's \<Rightarrow> command list \<Rightarrow> 's" where
  "srv_after h s [] = s"
| "srv_after h s (c # cs) = (case h s c of (out, s') \<Rightarrow> srv_after h s' cs)"

text \<open>A response that reports success with the status \<open>st\<close>.\<close>

definition ok_response :: "resp_status \<Rightarrow> outcome" where
  "ok_response st = Resolved \<lparr>status = Some st\<rparr>"

text \<open>A status reports an upsert when it has a truthy \<open>upsertedId\<close>.\<close>

definition reports_upsert :: "resp_status \<Rightarrow> bool" where
  "reports_upsert st = (case st_upsertedId st of None \<Rightarrow> False | Some v \<Rightarrow> \<not> falsy v)"

text \<open>
  The sums of the per-operation deltas of the statuses \<open>sts\<close>, the status at position
  \<open>i\<close> being that of operation \<open>i\<close>: the counters are sums over the list, and the
  upserted ids are keyed by position.
\<close>

definition sum_of_deltas :: "resp_status list \<Rightarrow> BulkWriteResult" where
  "sum_of_deltas sts =
     \<lparr>deletedCount = (\<Sum>st\<leftarrow>sts. case st_deletedCount st of None \<Rightarrow> 0 | Some n \<Rightarrow> n),
      insertedCount = (\<Sum>st\<leftarrow>sts. case st_insertedIds st of None \<Rightarrow> 0 | Some ids \<Rightarrow> int (length ids)),
      matchedCount = (\<Sum>st\<leftarrow>sts. case st_matchedCount st of None \<Rightarrow> 0 | Some n \<Rightarrow> n),
      modifiedCount = (\<Sum>st\<leftarrow>sts. case st_modifiedCount st of None \<Rightarrow> 0 | Some n \<Rightarrow> n),
      upsertedCount = int (length (filter reports_upsert sts)),
      upsertedIds = (\<lambda>i. if i < length sts \<and> reports_upsert (sts ! i)
                          then st_upsertedId (sts ! i) else None),
      raw = sts\<rparr>"

text \<open>The ids a response reports as inserted: \<open>status?.insertedIds ?? []\<close>.\<close>

definition ids_reported :: "response \<Rightarrow> json list" where
  "ids_reported resp =
     (case status resp of
        None \<Rightarrow> []
      | Some st \<Rightarrow> (case st_insertedIds st of None \<Rightarrow> [] | Some ids \<Rightarrow> ids))"

text \<open>
  The chunks of \<open>n\<close> documents a list is cut into, the last one possibly shorter. (There
  are none for \<open>n = 0\<close>, for which the source has no chunking to speak of.)
\<close>

function chunks :: "nat \<Rightarrow> 'a list \<Rightarrow> 'a list list" where
  "chunks n xs = (if n = 0 \<or> xs = [] then [] else take n xs # chunks n (drop n xs))"
  by pat_completeness auto
termination
  by (relation "measure (\<lambda>(n, xs). length xs)") auto

declare chunks.simps [simp del]

text \<open>The \<open>insertMany\<close> command of a chunk of an ordered run.\<close>

definition ordered_chunk :: "json list \<Rightarrow> command" where
  "ordered_chunk documents = InsertManyCommand documents True"

section \<open>Properties of the path extractor\<close>

subsection \<open>Unfolding the extractor case by case\<close>

lemma extract_path_falsy: "falsy v \<Longrightarrow> extract_path path index v = []"
  by (subst extract_path.simps) simp

lemma extract_path_terminal:
  "\<not> falsy v \<Longrightarrow> extract_path path (length path) v = spread v"
  by (subst extract_path.simps) (cases v; simp)

lemma extract_path_arr_index:
  assumes "index \<noteq> length path" "parseInt (path_at path index) \<noteq> NaN"
  shows "extract_path path index (JArr xs) =
           (if less_than_length (parseInt (path_at path index)) (length xs)
            then extract_path path (index + 1) (arr_get xs (parseInt (path_at path index)))
            else [])"
  using assms by (subst extract_path.simps) simp

lemma extract_path_arr_fanout:
  assumes "index \<noteq> length path" "parseInt (path_at path index) = NaN"
  shows "extract_path path index (JArr xs) = concat (map (extract_path path index) xs)"
  using assms by (subst extract_path.simps) simp

lemma extract_path_obj:
  assumes "index \<noteq> length path"
  shows "extract_path path index (JObj kvs) =
           extract_path path (index + 1) (obj_get kvs (path_at path index))"
  using assms by (subst extract_path.simps) simp

lemma extract_path_proto:
  assumes "index \<noteq> length path"
  shows "extract_path path index JObjectPrototype =
           extract_path path (index + 1) (object_prototype_get (path_at path index))"
  using assms by (subst extract_path.simps) simp

lemma terminals_falsy: "falsy v \<Longrightarrow> terminals path index v = []"
  by (subst terminals.simps) simp

lemma terminals_terminal: "\<not> falsy v \<Longrightarrow> terminals path (length path) v = [v]"
  by (subst terminals.simps) simp

lemma terminals_arr_index:
  assumes "index \<noteq> length path" "parseInt (path_at path index) \<noteq> NaN"
  shows "terminals path index (JArr xs) =
           (if less_than_length (parseInt (path_at path index)) (length xs)
            then terminals path (index + 1) (arr_get xs (parseInt (path_at path index)))
            else [])"
  using assms by (subst terminals.simps) simp

lemma terminals_arr_fanout:
  assumes "index \<noteq> length path" "parseInt (path_at path index) = NaN"
  shows "terminals path index (JArr xs) = concat (map (terminals path index) xs)"
  using assms by (subst terminals.simps) simp

lemma terminals_obj:
  assumes "index \<noteq> length path"
  shows "terminals path index (JObj kvs) =
           terminals path (index + 1) (obj_get kvs (path_at path index))"
  using assms by (subst terminals.simps) simp

lemma terminals_proto:
  assumes "index \<noteq> length path"
  shows "terminals path index JObjectPrototype =
           terminals path (index + 1) (object_prototype_get (path_at path index))"
  using assms by (subst terminals.simps) simp

subsection \<open>What is returned is what the path leads to, arrays spread\<close>

lemma concat_map_cong_set:
  "(\<And>x. x \<in> set xs \<Longrightarrow> f x = g x) \<Longrightarrow> concat (map f xs) = concat (map g xs)"
  by (induction xs) simp_all

lemma concat_spread_concat:
  "concat (map spread (concat (map f xs))) = concat (map (\<lambda>x. concat (map spread (f x))) xs)"
  by (induction xs) simp_all

lemma extract_path_spread:
  "extract_path path index v = concat (map spread (terminals path index v))"
proof (induction path index v rule: extract_path.induct)
  case (1 path index v)
  show ?case
  proof (cases "falsy v")
    case True
    then show ?thesis by (simp add: extract_path_falsy terminals_falsy)
  next
    case nf: False
    show ?thesis
    proof (cases "index = length path")
      case True
      with nf show ?thesis by (simp add: extract_path_terminal terminals_terminal)
    next
      case ni: False
      show ?thesis
      proof (cases v)
        case (JArr xs)
        show ?thesis
        proof (cases "parseInt (path_at path index) = NaN")
          case True
          have "concat (map (extract_path path index) xs)
                = concat (map (\<lambda>x. concat (map spread (terminals path index x))) xs)"
            by (rule concat_map_cong_set) (rule "1.IH"(1)[OF nf ni JArr True])
          then show ?thesis
            using JArr ni True
            by (simp add: extract_path_arr_fanout terminals_arr_fanout concat_spread_concat)
        next
          case False
          show ?thesis
          proof (cases "less_than_length (parseInt (path_at path index)) (length xs)")
            case True
            from "1.IH"(2)[OF nf ni JArr False True] JArr ni False True show ?thesis
              by (simp add: extract_path_arr_index terminals_arr_index)
          next
            case nl: False
            with JArr ni False show ?thesis
              by (simp add: extract_path_arr_index terminals_arr_index)
          qed
        qed
      next
        case (JObj kvs)
        from "1.IH"(3)[OF nf ni JObj] JObj ni show ?thesis
          by (simp add: extract_path_obj terminals_obj)
      next
        case JObjectPrototype
        from "1.IH"(4)[OF nf ni JObjectPrototype] JObjectPrototype ni show ?thesis
          by (simp add: extract_path_proto terminals_proto)
      qed (use nf ni in \<open>simp_all add: extract_path.simps[of path index] terminals.simps[of path index]\<close>)
    qed
  qed
qed

lemma terminals_truthy: "t \<in> set (terminals path index v) \<Longrightarrow> \<not> falsy t"
proof (induction path index v arbitrary: t rule: terminals.induct)
  case (1 path index v)
  show ?case
  proof (cases "falsy v")
    case True
    with "1.prems" show ?thesis by (simp add: terminals_falsy)
  next
    case nf: False
    show ?thesis
    proof (cases "index = length path")
      case True
      with nf "1.prems" show ?thesis by (simp add: terminals_terminal)
    next
      case ni: False
      show ?thesis
      proof (cases v)
        case (JArr xs)
        show ?thesis
        proof (cases "parseInt (path_at path index) = NaN")
          case True
          with "1.prems" JArr ni obtain y where "y \<in> set xs" "t \<in> set (terminals path index y)"
            by (auto simp: terminals_arr_fanout)
          then show ?thesis using "1.IH"(1)[OF nf ni JArr True] by blast
        next
          case False
          show ?thesis
          proof (cases "less_than_length (parseInt (path_at path index)) (length xs)")
            case True
            with "1.prems" JArr ni False
            have "t \<in> set (terminals path (index + 1) (arr_get xs (parseInt (path_at path index))))"
              by (simp add: terminals_arr_index)
            then show ?thesis using "1.IH"(2)[OF nf ni JArr False True] by blast
          next
            case nl: False
            with "1.prems" JArr ni False show ?thesis by (simp add: terminals_arr_index)
          qed
        qed
      next
        case (JObj kvs)
        with "1.prems" ni
        have "t \<in> set (terminals path (index + 1) (obj_get kvs (path_at path index)))"
          by (simp add: terminals_obj)
        then show ?thesis using "1.IH"(3)[OF nf ni JObj] by blast
      next
        case JObjectPrototype
        with "1.prems" ni
        have "t \<in> set (terminals path (index + 1) (object_prototype_get (path_at path index)))"
          by (simp add: terminals_proto)
        then show ?thesis using "1.IH"(4)[OF nf ni JObjectPrototype] by blast
      qed (use "1.prems" nf ni in \<open>simp_all add: terminals.simps[of path index]\<close>)
    qed
  qed
qed

lemma in_spread: "x \<in> set (spread t) \<longleftrightarrow> (\<exists>xs. t = JArr xs \<and> x \<in> set xs) \<or> ((\<forall>xs. t \<noteq> JArr xs) \<and> x = t)"
  by (cases t) auto

lemma falsy_extracted_iff:
  assumes "falsy x"
  shows "x \<in> set (extract_path path index v)
           \<longleftrightarrow> (\<exists>xs. JArr xs \<in> set (terminals path index v) \<and> x \<in> set xs)"
proof
  assume "x \<in> set (extract_path path index v)"
  then obtain t where t: "t \<in> set (terminals path index v)" "x \<in> set (spread t)"
    by (auto simp: extract_path_spread)
  from t(1) have "\<not> falsy t" by (rule terminals_truthy)
  with assms have "x \<noteq> t" by auto
  with t(2) obtain xs where "t = JArr xs" "x \<in> set xs" by (auto simp: in_spread)
  with t(1) show "\<exists>xs. JArr xs \<in> set (terminals path index v) \<and> x \<in> set xs" by blast
next
  assume "\<exists>xs. JArr xs \<in> set (terminals path index v) \<and> x \<in> set xs"
  then obtain xs where "JArr xs \<in> set (terminals path index v)" "x \<in> set xs" by blast
  then show "x \<in> set (extract_path path index v)"
    by (auto simp: extract_path_spread intro!: bexI[of _ "JArr xs"])
qed

subsection \<open>Decimal segments are indices\<close>












subsection \<open>The deduplication loop\<close>

lemma dedup_values_append:
  "dedup_values h (xs @ ys) st = dedup_values h ys (dedup_values h xs st)"
  by (induction h xs st rule: dedup_values.induct) auto

lemma dedup_values_seen_noop:
  "(\<forall>v\<in>set xs. seen_key h v \<in> set seen) \<Longrightarrow> dedup_values h xs (seen, ret) = (seen, ret)"
  by (induction xs) auto

lemma dedup_values_seen_mono:
  "set seen \<subseteq> set (fst (dedup_values h xs (seen, ret)))"
  by (induction h xs "(seen, ret)" arbitrary: seen ret rule: dedup_values.induct) auto

lemma dedup_values_keys_seen:
  "v \<in> set xs \<Longrightarrow> seen_key h v \<in> set (fst (dedup_values h xs (seen, ret)))"
proof (induction h xs "(seen, ret)" arbitrary: seen ret rule: dedup_values.induct)
  case (1 h seen ret)
  then show ?case by simp
next
  case (2 h x xs seen ret)
  then show ?case using dedup_values_seen_mono[of seen h xs ret]
      dedup_values_seen_mono[of "seen @ [seen_key h x]" h xs "ret @ [x]"]
    by auto
qed

lemma dedup_values_ret_subset:
  "set (snd (dedup_values h xs (seen, ret))) \<subseteq> set ret \<union> set xs"
  by (induction h xs "(seen, ret)" arbitrary: seen ret rule: dedup_values.induct) auto

lemma dedup_values_seen_of_ret:
  "set seen = seen_key h ` set ret \<Longrightarrow>
   set (fst (dedup_values h xs (seen, ret))) = seen_key h ` set (snd (dedup_values h xs (seen, ret)))"
  by (induction h xs "(seen, ret)" arbitrary: seen ret rule: dedup_values.induct) auto

lemma dedup_values_key_returned:
  assumes "v \<in> set xs"
  shows "\<exists>u \<in> set (snd (dedup_values h xs ([], []))). seen_key h u = seen_key h v"
proof -
  have "seen_key h v \<in> set (fst (dedup_values h xs ([], [])))"
    using assms by (rule dedup_values_keys_seen)
  also have "\<dots> = seen_key h ` set (snd (dedup_values h xs ([], [])))"
    by (rule dedup_values_seen_of_ret) simp
  finally show ?thesis by auto
qed

lemma distinct_loop_masks:
  "(\<forall>v\<in>set (ex_values e). seen_key h v \<in> set seen) \<Longrightarrow>
   distinct_loop h docs e (seen, ret) =
     snd (dedup_values h (concat (map (extract_path (split_dot (ex_path e)) 0) docs)) (seen, ret))"
proof (induction docs arbitrary: e seen ret)
  case Nil
  then show ?case by simp
next
  case (Cons d docs)
  let ?new = "extract_path (split_dot (ex_path e)) 0 d"
  let ?e' = "e\<lparr>ex_values := ex_values e @ ?new\<rparr>"
  obtain seen' ret' where st: "dedup_values h ?new (seen, ret) = (seen', ret')"
    by (cases "dedup_values h ?new (seen, ret)")
  have old: "dedup_values h (ex_values e) (seen, ret) = (seen, ret)"
    using Cons.prems by (rule dedup_values_seen_noop)
  have step: "dedup_values h (ex_values e @ ?new) (seen, ret) = (seen', ret')"
    by (simp add: dedup_values_append old st)
  have inv: "\<forall>v\<in>set (ex_values ?e'). seen_key h v \<in> set seen'"
  proof
    fix v assume "v \<in> set (ex_values ?e')"
    then consider "v \<in> set (ex_values e)" | "v \<in> set ?new" by auto
    then show "seen_key h v \<in> set seen'"
    proof cases
      case 1
      then have "seen_key h v \<in> set seen" using Cons.prems by blast
      then show ?thesis using dedup_values_seen_mono[of seen h ?new ret] st by auto
    next
      case 2
      then show ?thesis using dedup_values_keys_seen[of v ?new h seen ret] st by simp
    qed
  qed
  have "distinct_loop h (d # docs) e (seen, ret) = distinct_loop h docs ?e' (seen', ret')"
    by (simp add: call_extractor_def Let_def step)
  also have "\<dots> = snd (dedup_values h (concat (map (extract_path (split_dot (ex_path ?e')) 0) docs)) (seen', ret'))"
    using inv by (rule Cons.IH)
  also have "\<dots> = snd (dedup_values h (concat (map (extract_path (split_dot (ex_path e)) 0) (d # docs))) (seen, ret))"
    by (simp add: dedup_values_append st)
  finally show ?case .
qed

lemma extractor_state_after:
  "foldl (\<lambda>e d. snd (call_extractor e d)) e0 ds =
     e0\<lparr>ex_values := ex_values e0 @ concat (map (extract_path (split_dot (ex_path e0)) 0) ds)\<rparr>"
  by (induction ds arbitrary: e0) (simp_all add: call_extractor_def Let_def)

lemma distinct_docs_dedup:
  "distinct_docs h key docs = Inr vs \<Longrightarrow>
   vs = snd (dedup_values h (concat (map (extract_path (split_dot key) 0) docs)) ([], []))"
  using distinct_loop_masks[of "mkDistinctPathExtractor key" h "[]" docs "[]"]
  by (auto simp: distinct_docs_def mkDistinctPathExtractor_def split: option.splits)



lemma distinct_docs_key_returned:
  assumes "distinct_docs h key docs = Inr vs" "d \<in> set docs"
    "JArr xs \<in> set (terminals (split_dot key) 0 d)" "x \<in> set xs"
  shows "\<exists>u. u \<in> set vs \<and> seen_key h u = seen_key h x"
proof -
  have "x \<in> set (extract_path (split_dot key) 0 d)"
    using assms(3,4) by (auto simp: extract_path_spread intro!: bexI[of _ "JArr xs"])
  with assms(2) have "x \<in> set (concat (map (extract_path (split_dot key) 0) docs))" by auto
  then have "\<exists>u \<in> set (snd (dedup_values h (concat (map (extract_path (split_dot key) 0) docs)) ([], []))).
      seen_key h u = seen_key h x"
    by (rule dedup_values_key_returned)
  then show ?thesis using distinct_docs_dedup[OF assms(1)] by auto
qed

subsection \<open>Evaluation\<close>

lemmas eval_defs = js_def parseInt_def is_ws_def is_digit_def digit_val_def digits_val_def
  path_at_def obj_get_def object_prototype_get_def object_prototype_functions_def
  extract_path.simps terminals.simps call_extractor_def mkDistinctPathExtractor_def
  distinct_docs_def assertPathSafe4Distinct_def seen_key_def Let_def decimal.simps

subsection \<open>Claims about the path extractor\<close>



text \<open>
  Claim C9. The function returned by \<open>mkDistinctPathExtractor\<close> is not a function of
  the document alone: the array it returns is the one it closes over, so the call on
  the document \<open>d\<close> that follows the calls on \<open>ds\<close> returns the values of all of
  \<open>ds\<close> followed by those of \<open>d\<close> (for instance \<open>[1, 2]\<close> for \<open>{a: 2}\<close> after
  \<open>{a: 1}\<close>). \<open>distinct\<close> nevertheless returns what it would return with the values
  of each document seen once: going again over values whose keys are already in the
  \<open>seen\<close> set changes nothing.
\<close>

theorem extractor_accumulates_across_documents:
  "fst (call_extractor
         (foldl (\<lambda>e d. snd (call_extractor e d)) (mkDistinctPathExtractor path) ds) d)
     = concat (map (extract_path (split_dot path) 0) (ds @ [d]))
   \<and> fst (call_extractor
         (snd (call_extractor (mkDistinctPathExtractor (js ''a'')) (JObj [(js ''a'', JNum 1)])))
         (JObj [(js ''a'', JNum 2)]))
     = [JNum 1, JNum 2]
   \<and> distinct_docs h path docs =
       (case assertPathSafe4Distinct path of
          Some err \<Rightarrow> Inl err
        | None \<Rightarrow>
            Inr (snd (dedup_values h (concat (map (extract_path (split_dot path) 0) docs)) ([], []))))"
proof (intro conjI)
  show "fst (call_extractor
         (foldl (\<lambda>e d. snd (call_extractor e d)) (mkDistinctPathExtractor path) ds) d)
     = concat (map (extract_path (split_dot path) 0) (ds @ [d]))"
    unfolding extractor_state_after
    by (simp add: call_extractor_def Let_def mkDistinctPathExtractor_def)
next
  show "fst (call_extractor
         (snd (call_extractor (mkDistinctPathExtractor (js ''a'')) (JObj [(js ''a'', JNum 1)])))
         (JObj [(js ''a'', JNum 2)]))
     = [JNum 1, JNum 2]"
    by (simp add: eval_defs)
next
  have "distinct_loop h docs (mkDistinctPathExtractor path) ([], []) =
      snd (dedup_values h (concat (map (extract_path (split_dot path) 0) docs)) ([], []))"
    using distinct_loop_masks[of "mkDistinctPathExtractor path" h "[]" docs "[]"]
    by (simp add: mkDistinctPathExtractor_def)
  then show "distinct_docs h path docs =
       (case assertPathSafe4Distinct path of
          Some err \<Rightarrow> Inl err
        | None \<Rightarrow>
            Inr (snd (dedup_values h (concat (map (extract_path (split_dot path) 0) docs)) ([], []))))"
    by (simp add: distinct_docs_def split: option.splits)
qed

text \<open>
  Claim C10, as stated, fails: \<open>distinct\<close> does return a falsy scalar, namely when it
  is an element of an array that ends the path (\<open>{a: [0]}\<close> at \<open>a\<close> gives \<open>[0]\<close>).
\<close>

theorem distinct_returns_falsy_counterexample:
  "\<not> (\<forall>h key docs vs. distinct_docs h key docs = Inr vs \<longrightarrow> list_all (\<lambda>v. \<not> falsy v) vs)"
proof
  assume a: "\<forall>h key docs vs. distinct_docs h key docs = Inr vs \<longrightarrow> list_all (\<lambda>v. \<not> falsy v) vs"
  have "distinct_docs (\<lambda>_. []) (js ''a'') [JObj [(js ''a'', JArr [JNum 0])]] = Inr [JNum 0]"
    by (simp add: eval_defs)
  with a have "list_all (\<lambda>v. \<not> falsy v) [JNum 0]" by blast
  then show False by simp
qed

text \<open>
  Claim C10, amended. The guard \<open>!value\<close> rejects every falsy value, not only
  \<open>null\<close> and \<open>undefined\<close>: a value that is itself falsy contributes nothing, whether
  the path ends at it or goes on. The elements of an array the path ends at are
  pushed without the guard. So the extractor returns a falsy value if and only if it
  is an element of an array the path ends at, and \<open>distinct\<close> returns a falsy value
  only if it is such an element in some document. In the other direction \<open>distinct\<close>
  returns, for every such element, a value with the same key in its \<open>seen\<close> set: the
  element itself when it is \<open>0\<close> or \<open>false\<close>, whereas \<open>null\<close> (keyed by its hash) and
  \<open>''\<close> can be hidden by an earlier value with the same key. Thus \<open>{a: 0}\<close>,
  \<open>{a: {b: false}}\<close> at \<open>a.b\<close> and \<open>{a: 1, b: [0]}\<close> at \<open>a\<close> give no falsy value,
  \<open>{a: [0, 1]}\<close> gives \<open>[0, 1]\<close>, the documents \<open>{a: [0, false, 0]}\<close>, \<open>{a: 0}\<close>,
  \<open>{a: [null, '']}\<close> give \<open>[0, false, null, '']\<close>, and with a hash function that
  always answers \<open>H\<close> the documents \<open>{a: 'H'}\<close>, \<open>{a: [null]}\<close> give \<open>['H']\<close>.
\<close>

theorem falsy_guard_spares_terminal_array_elements:
  "(falsy v \<longrightarrow> extract_path path index v = [])
   \<and> (falsy x \<longrightarrow>
        (x \<in> set (extract_path path index v)
           \<longleftrightarrow> (\<exists>xs. JArr xs \<in> set (terminals path index v) \<and> x \<in> set xs)))
   \<and> (distinct_docs h key docs = Inr vs \<and> falsy x \<and> x \<in> set vs \<longrightarrow>
        (\<exists>d xs. d \<in> set docs \<and> JArr xs \<in> set (terminals (split_dot key) 0 d) \<and> x \<in> set xs))
   \<and> (distinct_docs h key docs = Inr vs \<and> d \<in> set docs
        \<and> JArr xs \<in> set (terminals (split_dot key) 0 d) \<and> x \<in> set xs \<longrightarrow>
        (\<exists>u. u \<in> set vs \<and> seen_key h u = seen_key h x)
        \<and> (x = JNum 0 \<or> x = JBool False \<longrightarrow> x \<in> set vs))
   \<and> fst (call_extractor (mkDistinctPathExtractor (js ''a'')) (JObj [(js ''a'', JNum 0)])) = []
   \<and> fst (call_extractor (mkDistinctPathExtractor (js ''a.b''))
        (JObj [(js ''a'', JObj [(js ''b'', JBool False)])])) = []
   \<and> fst (call_extractor (mkDistinctPathExtractor (js ''a''))
        (JObj [(js ''a'', JNum 1), (js ''b'', JArr [JNum 0])])) = [JNum 1]
   \<and> fst (call_extractor (mkDistinctPathExtractor (js ''a''))
        (JObj [(js ''a'', JArr [JNum 0, JNum 1])])) = [JNum 0, JNum 1]
   \<and> distinct_docs (\<lambda>_. js ''H'') (js ''a'')
        [JObj [(js ''a'', JArr [JNum 0, JBool False, JNum 0])], JObj [(js ''a'', JNum 0)],
         JObj [(js ''a'', JArr [JNull, JStr []])]]
      = Inr [JNum 0, JBool False, JNull, JStr []]
   \<and> distinct_docs (\<lambda>_. js ''H'') (js ''a'')
        [JObj [(js ''a'', JStr (js ''H''))], JObj [(js ''a'', JArr [JNull])]]
      = Inr [JStr (js ''H'')]"
proof (intro conjI impI)
  assume "falsy v"
  then show "extract_path path index v = []" by (rule extract_path_falsy)
next
  assume "falsy x"
  then show "x \<in> set (extract_path path index v)
           \<longleftrightarrow> (\<exists>xs. JArr xs \<in> set (terminals path index v) \<and> x \<in> set xs)"
    by (rule falsy_extracted_iff)
next
  assume a: "distinct_docs h key docs = Inr vs \<and> falsy x \<and> x \<in> set vs"
  then have vs: "vs = snd (dedup_values h (concat (map (extract_path (split_dot key) 0) docs)) ([], []))"
    by (simp add: distinct_docs_dedup)
  with a dedup_values_ret_subset[of h "concat (map (extract_path (split_dot key) 0) docs)" "[]" "[]"]
  obtain d where d: "d \<in> set docs" "x \<in> set (extract_path (split_dot key) 0 d)" by auto
  from a d(2) obtain xs where "JArr xs \<in> set (terminals (split_dot key) 0 d)" "x \<in> set xs"
    by (auto simp: falsy_extracted_iff)
  with d(1) show "\<exists>d xs. d \<in> set docs \<and> JArr xs \<in> set (terminals (split_dot key) 0 d) \<and> x \<in> set xs"
    by blast
next
  assume a: "distinct_docs h key docs = Inr vs \<and> d \<in> set docs
        \<and> JArr xs \<in> set (terminals (split_dot key) 0 d) \<and> x \<in> set xs"
  then show "\<exists>u. u \<in> set vs \<and> seen_key h u = seen_key h x"
    using distinct_docs_key_returned[of h key docs vs d xs x] by blast
next
  assume a: "distinct_docs h key docs = Inr vs \<and> d \<in> set docs
        \<and> JArr xs \<in> set (terminals (split_dot key) 0 d) \<and> x \<in> set xs"
    and x: "x = JNum 0 \<or> x = JBool False"
  from a obtain u where u: "u \<in> set vs" "seen_key h u = seen_key h x"
    using distinct_docs_key_returned[of h key docs vs d xs x] by blast
  from x u(2) have "u = x" by (auto simp: seen_key_def split: if_splits)
  with u(1) show "x \<in> set vs" by simp
qed (simp_all add: eval_defs)

text \<open>
  The theorem of the amended claim C10 at the documents \<open>{a: [0, 1]}\<close>, \<open>{a: 0}\<close> and
  \<open>{a: [false]}\<close>, whose arrays hold falsy elements.
\<close>

theorem falsy_guard_spares_terminal_array_elements_witness:
  "falsy (JNum 0)
   \<and> extract_path [js ''a''] 1 (JNum 0) = []
   \<and> JNum 0 \<in> set (extract_path [js ''a''] 0 (JObj [(js ''a'', JArr [JNum 0, JNum 1])]))
   \<and> JArr [JNum 0, JNum 1] \<in> set (terminals [js ''a''] 0 (JObj [(js ''a'', JArr [JNum 0, JNum 1])]))
   \<and> distinct_docs (\<lambda>_. []) (js ''a'')
       [JObj [(js ''a'', JArr [JNum 0, JNum 1])], JObj [(js ''a'', JNum 0)],
        JObj [(js ''a'', JArr [JBool False])]]
     = Inr [JNum 0, JNum 1, JBool False]
   \<and> (\<exists>d xs. d \<in> set [JObj [(js ''a'', JArr [JNum 0, JNum 1])], JObj [(js ''a'', JNum 0)],
                       JObj [(js ''a'', JArr [JBool False])]]
        \<and> JArr xs \<in> set (terminals (split_dot (js ''a'')) 0 d) \<and> JNum 0 \<in> set xs)
   \<and> JNum 0 \<in> set [JNum 0, JNum 1, JBool False]"
proof -
  have s: "split_dot (js ''a'') = [js ''a'']" by (simp add: js_def)
  have t: "terminals [js ''a''] 0 (JObj [(js ''a'', JArr [JNum 0, JNum 1])]) = [JArr [JNum 0, JNum 1]]"
    by (simp add: eval_defs)
  have d: "distinct_docs (\<lambda>_. []) (js ''a'')
       [JObj [(js ''a'', JArr [JNum 0, JNum 1])], JObj [(js ''a'', JNum 0)],
        JObj [(js ''a'', JArr [JBool False])]]
     = Inr [JNum 0, JNum 1, JBool False]"
    by (simp add: eval_defs)
  note A = falsy_guard_spares_terminal_array_elements
      [where v = "JNum 0" and path = "[js ''a'']" and index = 1, THEN conjunct1]
  note B = falsy_guard_spares_terminal_array_elements
      [where v = "JObj [(js ''a'', JArr [JNum 0, JNum 1])]" and path = "[js ''a'']" and index = 0
         and x = "JNum 0", THEN conjunct2, THEN conjunct1]
  note C = falsy_guard_spares_terminal_array_elements
      [where x = "JNum 0" and h = "\<lambda>_. []" and key = "js ''a''"
         and docs = "[JObj [(js ''a'', JArr [JNum 0, JNum 1])], JObj [(js ''a'', JNum 0)],
                      JObj [(js ''a'', JArr [JBool False])]]"
         and vs = "[JNum 0, JNum 1, JBool False]", THEN conjunct2, THEN conjunct2, THEN conjunct1]
  note D = falsy_guard_spares_terminal_array_elements
      [where x = "JNum 0" and h = "\<lambda>_. []" and key = "js ''a''"
         and docs = "[JObj [(js ''a'', JArr [JNum 0, JNum 1])], JObj [(js ''a'', JNum 0)],
                      JObj [(js ''a'', JArr [JBool False])]]"
         and vs = "[JNum 0, JNum 1, JBool False]"
         and d = "JObj [(js ''a'', JArr [JNum 0, JNum 1])]" and xs = "[JNum 0, JNum 1]",
       THEN conjunct2, THEN conjunct2, THEN conjunct2, THEN conjunct1]
  have f: "falsy (JNum 0)" by simp
  from A f have c2: "extract_path [js ''a''] 1 (JNum 0) = []" by blast
  from B f t have c3: "JNum 0 \<in> set (extract_path [js ''a''] 0 (JObj [(js ''a'', JArr [JNum 0, JNum 1])]))"
    by simp
  have c4: "JArr [JNum 0, JNum 1] \<in> set (terminals [js ''a''] 0 (JObj [(js ''a'', JArr [JNum 0, JNum 1])]))"
    using t by simp
  have c6: "\<exists>d xs. d \<in> set [JObj [(js ''a'', JArr [JNum 0, JNum 1])], JObj [(js ''a'', JNum 0)],
                       JObj [(js ''a'', JArr [JBool False])]]
        \<and> JArr xs \<in> set (terminals (split_dot (js ''a'')) 0 d) \<and> JNum 0 \<in> set xs"
    using C d f by simp
  have "JArr [JNum 0, JNum 1] \<in> set (terminals (split_dot (js ''a'')) 0 (JObj [(js ''a'', JArr [JNum 0, JNum 1])]))"
    using c4 s by simp
  with D d have c7: "JNum 0 \<in> set [JNum 0, JNum 1, JBool False]"
    by simp
  show ?thesis using f c2 c3 c4 d c6 c7 by blast
qed

section \<open>Properties of ordered execution\<close>

lemma executeCommand_sent:
  "executeCommand h c w = (out, w') \<Longrightarrow> sent w' = sent w @ [c]"
  by (auto simp: executeCommand_def split: prod.splits)

lemma bulkWriteOrdered_loop_done:
  "\<not> i < length operations \<Longrightarrow> bulkWriteOrdered_loop h operations i rs w = (Inr rs, w)"
  by (subst bulkWriteOrdered_loop.simps) simp

lemma bulkWriteOrdered_loop_ok:
  "i < length operations \<Longrightarrow> executeCommand h (operations ! i) w = (Resolved resp, w')
   \<Longrightarrow> status resp = Some st
   \<Longrightarrow> bulkWriteOrdered_loop h operations i rs w =
       bulkWriteOrdered_loop h operations (i + 1) (addToBulkWriteResult rs st i) w'"
  by (subst bulkWriteOrdered_loop.simps) simp

lemma bulkWriteOrdered_loop_no_status:
  "i < length operations \<Longrightarrow> executeCommand h (operations ! i) w = (Resolved resp, w')
   \<Longrightarrow> status resp = None
   \<Longrightarrow> bulkWriteOrdered_loop h operations i rs w = (Inl (JsError TypeError), w')"
  by (subst bulkWriteOrdered_loop.simps) simp

lemma bulkWriteOrdered_loop_other:
  "i < length operations \<Longrightarrow> executeCommand h (operations ! i) w = (Rejected (OtherError e), w')
   \<Longrightarrow> bulkWriteOrdered_loop h operations i rs w = (Inl (ExecutorError e), w')"
  by (subst bulkWriteOrdered_loop.simps) simp

lemma bulkWriteOrdered_loop_failed:
  "i < length operations \<Longrightarrow> executeCommand h (operations ! i) w = (Rejected (ResponseError desc), w')
   \<Longrightarrow> bulkWriteOrdered_loop h operations i rs w =
       (Inl (CumulativeError BulkWriteError [desc_command desc] [desc_rawResponse desc]
          (BulkWritePartial
             (case status (desc_rawResponse desc) of
                None \<Rightarrow> rs
              | Some st \<Rightarrow> addToBulkWriteResult rs st i))), w')"
  by (subst bulkWriteOrdered_loop.simps)
     (simp add: mkRespErrorFromResponse_def mkRespErrorFromResponses_def)

text \<open>The ways one round of the loop can go.\<close>

lemma executeCommand_cases:
  obtains (ok) resp st w' where "executeCommand h c w = (Resolved resp, w')" "status resp = Some st"
  | (no_status) resp w' where "executeCommand h c w = (Resolved resp, w')" "status resp = None"
  | (other) e w' where "executeCommand h c w = (Rejected (OtherError e), w')"
  | (failed) desc w' where "executeCommand h c w = (Rejected (ResponseError desc), w')"
proof (cases "executeCommand h c w")
  case (Pair out w')
  show ?thesis
  proof (cases out)
    case (Resolved resp)
    with Pair ok no_status show ?thesis by (cases "status resp") auto
  next
    case (Rejected t)
    with Pair other failed show ?thesis by (cases t) auto
  qed
qed

lemma bulkWriteOrdered_loop_prefix:
  "k \<le> length operations \<Longrightarrow> i \<le> k
   \<Longrightarrow> bulkWriteOrdered_loop h (take k operations) i rs w = (Inr acc, w1)
   \<Longrightarrow> bulkWriteOrdered_loop h operations i rs w = bulkWriteOrdered_loop h operations k acc w1
       \<and> sent w1 = sent w @ take (k - i) (drop i operations)"
proof (induction "k - i" arbitrary: i rs w)
  case 0
  then have "i = k" by simp
  with 0 show ?case by (simp add: bulkWriteOrdered_loop_done)
next
  case (Suc n)
  then have ik: "i < k" and il: "i < length operations" and it: "i < length (take k operations)"
    by simp_all
  have nth: "take k operations ! i = operations ! i" using ik by simp
  show ?case
  proof (cases h "operations ! i" w rule: executeCommand_cases)
    case (ok resp st w')
    have run: "bulkWriteOrdered_loop h (take k operations) (i + 1) (addToBulkWriteResult rs st i) w'
        = (Inr acc, w1)"
      using Suc.prems(3) bulkWriteOrdered_loop_ok[OF it, of h w resp w' st rs] ok nth by simp
    have "n = k - (i + 1)" using Suc.hyps(2) by simp
    from Suc.hyps(1)[OF this Suc.prems(1) _ run] ik
    have IH: "bulkWriteOrdered_loop h operations (i + 1) (addToBulkWriteResult rs st i) w'
          = bulkWriteOrdered_loop h operations k acc w1"
      "sent w1 = sent w' @ take (k - (i + 1)) (drop (i + 1) operations)" by simp_all
    have "take (k - i) (drop i operations) = operations ! i # take (k - (i + 1)) (drop (i + 1) operations)"
      using ik il by (metis Cons_nth_drop_Suc Suc_diff_Suc Suc_eq_plus1 take_Suc_Cons)
    then show ?thesis using IH ok executeCommand_sent[OF ok(1)]
      by (simp add: bulkWriteOrdered_loop_ok[OF il ok])
  next
    case (no_status resp w')
    then show ?thesis using Suc.prems(3) bulkWriteOrdered_loop_no_status[OF it, of h w resp w'] nth
      by simp
  next
    case (other e w')
    then show ?thesis using Suc.prems(3) bulkWriteOrdered_loop_other[OF it, of h w e w'] nth
      by simp
  next
    case (failed desc w')
    then show ?thesis using Suc.prems(3) bulkWriteOrdered_loop_failed[OF it, of h w desc w'] nth
      by simp
  qed
qed

lemma bulkWriteOrdered_loop_sent:
  "bulkWriteOrdered_loop h operations i rs w = (res, w') \<Longrightarrow> i \<le> length operations
   \<Longrightarrow> \<exists>n. i \<le> n \<and> n \<le> length operations \<and> sent w' = sent w @ take (n - i) (drop i operations)
         \<and> (isl res \<or> n = length operations)"
proof (induction "length operations - i" arbitrary: i rs w)
  case 0
  then show ?case by (auto simp: bulkWriteOrdered_loop_done)
next
  case (Suc m)
  then have il: "i < length operations" by simp
  have one: "take (Suc i - i) (drop i operations) = [operations ! i]"
    using il by (simp add: take_Suc_conv_app_nth Cons_nth_drop_Suc[symmetric])
  show ?case
  proof (cases h "operations ! i" w rule: executeCommand_cases)
    case (ok resp st w'')
    have m: "m = length operations - (i + 1)" using Suc.hyps(2) by simp
    have run: "bulkWriteOrdered_loop h operations (i + 1) (addToBulkWriteResult rs st i) w'' = (res, w')"
      using Suc.prems(1) bulkWriteOrdered_loop_ok[OF il ok] by simp
    from Suc.hyps(1)[OF m run] il obtain n where n: "i + 1 \<le> n" "n \<le> length operations"
      "sent w' = sent w'' @ take (n - (i + 1)) (drop (i + 1) operations)"
      "isl res \<or> n = length operations" by auto
    have "take (n - i) (drop i operations) = operations ! i # take (n - (i + 1)) (drop (i + 1) operations)"
      using n(1) il by (metis Cons_nth_drop_Suc Suc_diff_Suc Suc_eq_plus1 Suc_le_lessD take_Suc_Cons)
    then have "sent w' = sent w @ take (n - i) (drop i operations)"
      using n(3) executeCommand_sent[OF ok(1)] by simp
    then show ?thesis using n by (intro exI[of _ n]) auto
  next
    case (no_status resp w'')
    then show ?thesis
      using Suc.prems(1) bulkWriteOrdered_loop_no_status[OF il no_status, of rs] il one
        executeCommand_sent[OF no_status(1)]
      by (intro exI[of _ "Suc i"]) auto
  next
    case (other e w'')
    then show ?thesis
      using Suc.prems(1) bulkWriteOrdered_loop_other[OF il other, of rs] il one
        executeCommand_sent[OF other]
      by (intro exI[of _ "Suc i"]) auto
  next
    case (failed desc w'')
    then show ?thesis
      using Suc.prems(1) bulkWriteOrdered_loop_failed[OF il failed, of rs] il one
        executeCommand_sent[OF failed]
      by (intro exI[of _ "Suc i"]) auto
  qed
qed

subsection \<open>The ordered loops against the answers of the service\<close>

lemma executeCommand_eq:
  "executeCommand h c w = (fst (h (srv w) c), \<lparr>srv = snd (h (srv w) c), sent = sent w @ [c]\<rparr>)"
  by (simp add: executeCommand_def split: prod.splits)

lemma length_answers: "length (answers h s cs) = length cs"
  by (induction cs arbitrary: s) (simp_all split: prod.splits)

lemma answers_Cons: "answers h s (c # cs) = fst (h s c) # answers h (snd (h s c)) cs"
  by (simp split: prod.splits)

lemma srv_after_Cons: "srv_after h s (c # cs) = srv_after h (snd (h s c)) cs"
  by (simp split: prod.splits)

declare answers.simps(2) [simp del] srv_after.simps(2) [simp del]

lemma has_upsertedId_reports: "has_upsertedId st = reports_upsert st"
  by (simp add: has_upsertedId_def reports_upsert_def)

lemma sum_of_deltas_nil: "sum_of_deltas [] = new_BulkWriteResult"
  by (simp add: sum_of_deltas_def new_BulkWriteResult_def)

lemma upsertedIds_snoc:
  "(\<lambda>i. if i < length (sts @ [st]) \<and> reports_upsert ((sts @ [st]) ! i)
        then st_upsertedId ((sts @ [st]) ! i) else None)
   = (if reports_upsert st
      then (\<lambda>i. if i < length sts \<and> reports_upsert (sts ! i) then st_upsertedId (sts ! i) else None)
             (length sts := st_upsertedId st)
      else (\<lambda>i. if i < length sts \<and> reports_upsert (sts ! i) then st_upsertedId (sts ! i) else None))"
  by (rule ext) (auto simp: nth_append less_Suc_eq)

lemma sum_of_deltas_snoc:
  "sum_of_deltas (sts @ [st]) = addToBulkWriteResult (sum_of_deltas sts) st (length sts)"
proof (cases "reports_upsert st")
  case True
  then show ?thesis
    unfolding sum_of_deltas_def addToBulkWriteResult_def Let_def has_upsertedId_reports
      upsertedIds_snoc
    by (simp add: or_zero_def or_nil_def split: option.splits)
next
  case False
  then show ?thesis
    unfolding sum_of_deltas_def addToBulkWriteResult_def Let_def has_upsertedId_reports
      upsertedIds_snoc
    by (simp add: or_zero_def or_nil_def split: option.splits)
qed

lemma take_Suc_drop:
  "i < length xs \<Longrightarrow> take (Suc k) (drop i xs) = xs ! i # take k (drop (Suc i) xs)"
  by (simp add: Cons_nth_drop_Suc[symmetric])

lemma bulkWriteOrdered_loop_answers_fail:
  assumes "answers h (srv w) (take (Suc k) (drop i operations))
             = map ok_response sts @ [Rejected (ResponseError desc)]"
    and "i + k < length operations" and "length pre = i"
  shows "bulkWriteOrdered_loop h operations i (sum_of_deltas pre) w =
     (Inl (CumulativeError BulkWriteError [desc_command desc] [desc_rawResponse desc]
        (BulkWritePartial (sum_of_deltas
           (pre @ sts @ (case status (desc_rawResponse desc) of None \<Rightarrow> [] | Some st \<Rightarrow> [st]))))),
      \<lparr>srv = srv_after h (srv w) (take (Suc k) (drop i operations)),
       sent = sent w @ take (Suc k) (drop i operations)\<rparr>)"
  using assms
proof (induction k arbitrary: i w sts pre)
  case 0
  then have il: "i < length operations" by simp
  from 0(1) have a: "[fst (h (srv w) (operations ! i))]
      = map ok_response sts @ [Rejected (ResponseError desc)]"
    by (simp add: take_Suc_drop[OF il] answers_Cons)
  then have sts: "sts = []" by (cases sts) auto
  with a have out: "fst (h (srv w) (operations ! i)) = Rejected (ResponseError desc)" by simp
  have ex: "executeCommand h (operations ! i) w =
      (Rejected (ResponseError desc),
       \<lparr>srv = snd (h (srv w) (operations ! i)), sent = sent w @ [operations ! i]\<rparr>)"
    by (simp add: executeCommand_eq out)
  have acc: "(case status (desc_rawResponse desc) of
                None \<Rightarrow> sum_of_deltas pre
              | Some st \<Rightarrow> addToBulkWriteResult (sum_of_deltas pre) st i)
       = sum_of_deltas (pre @ sts @ (case status (desc_rawResponse desc) of None \<Rightarrow> [] | Some st \<Rightarrow> [st]))"
    using 0(3) by (simp add: sts sum_of_deltas_snoc split: option.splits)
  show ?case
    unfolding bulkWriteOrdered_loop_failed[OF il ex] acc
    by (simp add: take_Suc_drop[OF il] srv_after_Cons)
next
  case (Suc k)
  then have il: "i < length operations" by simp
  let ?c = "operations ! i"
  let ?rest = "take (Suc k) (drop (Suc i) operations)"
  from Suc.prems(1) have a: "fst (h (srv w) ?c) # answers h (snd (h (srv w) ?c)) ?rest
      = map ok_response sts @ [Rejected (ResponseError desc)]"
    by (simp only: take_Suc_drop[OF il] answers_Cons)
  have "length (answers h (snd (h (srv w) ?c)) ?rest) = Suc k"
    using Suc.prems(2) by (simp add: length_answers)
  with a have "length sts = Suc k"
    by (metis Suc_inject length_Cons length_append_singleton length_map)
  then obtain st sts' where sts: "sts = st # sts'" by (cases sts) auto
  with a have out: "fst (h (srv w) ?c) = ok_response st"
    and rest: "answers h (snd (h (srv w) ?c)) ?rest
                 = map ok_response sts' @ [Rejected (ResponseError desc)]"
    by simp_all
  let ?w' = "\<lparr>srv = snd (h (srv w) ?c), sent = sent w @ [?c]\<rparr>"
  have ex: "executeCommand h ?c w = (Resolved \<lparr>status = Some st\<rparr>, ?w')"
    using out by (simp add: executeCommand_eq ok_response_def)
  have step: "bulkWriteOrdered_loop h operations i (sum_of_deltas pre) w
      = bulkWriteOrdered_loop h operations (Suc i) (sum_of_deltas (pre @ [st])) ?w'"
    using bulkWriteOrdered_loop_ok[OF il ex, of st "sum_of_deltas pre"] Suc.prems(3)
    by (simp add: sum_of_deltas_snoc)
  have IH: "bulkWriteOrdered_loop h operations (Suc i) (sum_of_deltas (pre @ [st])) ?w' =
     (Inl (CumulativeError BulkWriteError [desc_command desc] [desc_rawResponse desc]
        (BulkWritePartial (sum_of_deltas
           ((pre @ [st]) @ sts' @ (case status (desc_rawResponse desc) of None \<Rightarrow> [] | Some st \<Rightarrow> [st]))))),
      \<lparr>srv = srv_after h (srv ?w') ?rest, sent = sent ?w' @ ?rest\<rparr>)"
    by (rule Suc.IH) (use rest Suc.prems in simp_all)
  show ?case
    unfolding step IH
    by (simp add: sts take_Suc_drop[OF il, of "Suc k"] srv_after_Cons)
qed

lemma bulkWriteOrdered_loop_answers_ok:
  assumes "answers h (srv w) (drop i operations) = map ok_response sts"
    and "i \<le> length operations" and "length pre = i"
  shows "bulkWriteOrdered_loop h operations i (sum_of_deltas pre) w =
     (Inr (sum_of_deltas (pre @ sts)),
      \<lparr>srv = srv_after h (srv w) (drop i operations), sent = sent w @ drop i operations\<rparr>)"
  using assms
proof (induction sts arbitrary: i w pre)
  case Nil
  then have "length (drop i operations) = 0"
    by (metis length_answers length_map list.size(3))
  then have "\<not> i < length operations" and d: "drop i operations = []" by simp_all
  then show ?case by (simp add: bulkWriteOrdered_loop_done)
next
  case (Cons st sts)
  then have "length (drop i operations) = Suc (length sts)"
    by (metis length_answers length_map length_Cons)
  then have il: "i < length operations" by simp
  let ?c = "operations ! i"
  have d: "drop i operations = ?c # drop (Suc i) operations"
    using il by (simp add: Cons_nth_drop_Suc)
  from Cons.prems(1) have out: "fst (h (srv w) ?c) = ok_response st"
    and rest: "answers h (snd (h (srv w) ?c)) (drop (Suc i) operations) = map ok_response sts"
    by (simp_all add: d answers_Cons)
  let ?w' = "\<lparr>srv = snd (h (srv w) ?c), sent = sent w @ [?c]\<rparr>"
  have ex: "executeCommand h ?c w = (Resolved \<lparr>status = Some st\<rparr>, ?w')"
    using out by (simp add: executeCommand_eq ok_response_def)
  have step: "bulkWriteOrdered_loop h operations i (sum_of_deltas pre) w
      = bulkWriteOrdered_loop h operations (Suc i) (sum_of_deltas (pre @ [st])) ?w'"
    using bulkWriteOrdered_loop_ok[OF il ex, of st "sum_of_deltas pre"] Cons.prems(3)
    by (simp add: sum_of_deltas_snoc)
  have IH: "bulkWriteOrdered_loop h operations (Suc i) (sum_of_deltas (pre @ [st])) ?w' =
     (Inr (sum_of_deltas ((pre @ [st]) @ sts)),
      \<lparr>srv = srv_after h (srv ?w') (drop (Suc i) operations),
       sent = sent ?w' @ drop (Suc i) operations\<rparr>)"
    by (rule Cons.IH) (use rest il Cons.prems in simp_all)
  show ?case
    unfolding step IH by (simp add: d[symmetric]) (simp add: d srv_after_Cons)
qed

subsection \<open>The chunks of \<open>insertManyOrdered\<close>\<close>

lemma chunks_nonempty:
  "chunks n xs \<noteq> [] \<longleftrightarrow> 0 < n \<and> xs \<noteq> []"
  by (subst chunks.simps) auto

lemma chunks_Nil [simp]: "chunks n [] = []"
  by (subst chunks.simps) simp

lemma chunks_Cons:
  "0 < n \<Longrightarrow> xs \<noteq> [] \<Longrightarrow> chunks n xs = take n xs # chunks n (drop n xs)"
  by (subst chunks.simps) simp

lemma chunks_drop:
  assumes "0 < n" "i < length documents"
  shows "chunks n (drop i documents)
           = slice documents i (i + n) # chunks n (drop (i + n) documents)"
  using assms chunks_Cons[of n "drop i documents"] by (simp add: slice_def add.commute)

lemma chunks_done: "\<not> i < length documents \<Longrightarrow> chunks n (drop i documents) = []"
  by (subst chunks.simps) simp

lemma ids_reported_raw: "raw_insertedIds desc = ids_reported (desc_rawResponse desc)"
  by (simp add: raw_insertedIds_def ids_reported_def or_nil_def split: option.splits)

lemma insertMany_eq:
  "insertMany h documents True w =
     (case fst (h (srv w) (ordered_chunk documents)) of
        Resolved resp \<Rightarrow> Inr (ids_reported resp)
      | Rejected e \<Rightarrow> Inl e,
      \<lparr>srv = snd (h (srv w) (ordered_chunk documents)), sent = sent w @ [ordered_chunk documents]\<rparr>)"
  by (simp add: insertMany_def executeCommand_eq ordered_chunk_def ids_reported_def or_nil_def
      split: outcome.splits option.splits)

lemma insertManyOrdered_loop_done:
  "\<not> i < length documents \<Longrightarrow> insertManyOrdered_loop h documents n i ids w = Some (Inr ids, w)"
  by (subst insertManyOrdered_loop.simps) simp

lemma insertManyOrdered_loop_ok:
  assumes "i < length documents"
    "fst (h (srv w) (ordered_chunk (slice documents i (i + n)))) = Resolved resp"
  shows "insertManyOrdered_loop h documents n i ids w =
     insertManyOrdered_loop h documents n (i + n) (ids @ ids_reported resp)
       \<lparr>srv = snd (h (srv w) (ordered_chunk (slice documents i (i + n)))),
        sent = sent w @ [ordered_chunk (slice documents i (i + n))]\<rparr>"
  using assms by (subst insertManyOrdered_loop.simps) (simp add: insertMany_eq)

lemma insertManyOrdered_loop_failed:
  assumes "i < length documents"
    "fst (h (srv w) (ordered_chunk (slice documents i (i + n)))) = Rejected (ResponseError desc)"
  shows "insertManyOrdered_loop h documents n i ids w =
     Some (Inl (CumulativeError InsertManyError [desc_command desc] [desc_rawResponse desc]
             (InsertManyPartial (ids @ ids_reported (desc_rawResponse desc))
                (length (ids @ ids_reported (desc_rawResponse desc))))),
       \<lparr>srv = snd (h (srv w) (ordered_chunk (slice documents i (i + n)))),
        sent = sent w @ [ordered_chunk (slice documents i (i + n))]\<rparr>)"
  using assms
  by (subst insertManyOrdered_loop.simps)
     (simp add: insertMany_eq ids_reported_raw mkRespErrorFromResponse_def
        mkRespErrorFromResponses_def)

lemma insertManyOrdered_loop_answers_fail:
  assumes "0 < n"
    and "answers h (srv w) (map ordered_chunk (take (Suc k) (chunks n (drop i documents))))
           = map Resolved resps @ [Rejected (ResponseError desc)]"
    and "k < length (chunks n (drop i documents))"
  shows "insertManyOrdered_loop h documents n i ids w =
     Some (Inl (CumulativeError InsertManyError [desc_command desc] [desc_rawResponse desc]
             (InsertManyPartial
                (ids @ concat (map ids_reported resps) @ ids_reported (desc_rawResponse desc))
                (length (ids @ concat (map ids_reported resps) @ ids_reported (desc_rawResponse desc))))),
       \<lparr>srv = srv_after h (srv w) (map ordered_chunk (take (Suc k) (chunks n (drop i documents)))),
        sent = sent w @ map ordered_chunk (take (Suc k) (chunks n (drop i documents)))\<rparr>)"
  using assms(2,3)
proof (induction k arbitrary: i w resps ids)
  case 0
  then have "chunks n (drop i documents) \<noteq> []" by auto
  then have il: "i < length documents" by (simp add: chunks_nonempty)
  note ch = chunks_drop[OF assms(1) il]
  let ?c = "ordered_chunk (slice documents i (i + n))"
  from 0(1) have a: "[fst (h (srv w) ?c)] = map Resolved resps @ [Rejected (ResponseError desc)]"
    by (simp add: ch answers_Cons)
  then have r: "resps = []" by (cases resps) auto
  with a have out: "fst (h (srv w) ?c) = Rejected (ResponseError desc)" by simp
  show ?case
    unfolding insertManyOrdered_loop_failed[where h = h and w = w and n = n, OF il out]
    by (simp add: ch r srv_after_Cons)
next
  case (Suc k)
  then have "chunks n (drop i documents) \<noteq> []" by auto
  then have il: "i < length documents" by (simp add: chunks_nonempty)
  note ch = chunks_drop[OF assms(1) il]
  let ?c = "ordered_chunk (slice documents i (i + n))"
  let ?rest = "map ordered_chunk (take (Suc k) (chunks n (drop (i + n) documents)))"
  from Suc.prems(1) have a: "fst (h (srv w) ?c) # answers h (snd (h (srv w) ?c)) ?rest
      = map Resolved resps @ [Rejected (ResponseError desc)]"
    by (simp add: ch answers_Cons)
  from Suc.prems(2) have kl: "k < length (chunks n (drop (i + n) documents))" by (simp add: ch)
  then have "length (answers h (snd (h (srv w) ?c)) ?rest) = Suc k"
    by (simp add: length_answers)
  with a have "length resps = Suc k"
    by (metis Suc_inject length_Cons length_append_singleton length_map)
  then obtain resp resps' where resps: "resps = resp # resps'" by (cases resps) auto
  with a have out: "fst (h (srv w) ?c) = Resolved resp"
    and rest: "answers h (snd (h (srv w) ?c)) ?rest
                 = map Resolved resps' @ [Rejected (ResponseError desc)]"
    by simp_all
  let ?w' = "\<lparr>srv = snd (h (srv w) ?c), sent = sent w @ [?c]\<rparr>"
  have IH: "insertManyOrdered_loop h documents n (i + n) (ids @ ids_reported resp) ?w' =
     Some (Inl (CumulativeError InsertManyError [desc_command desc] [desc_rawResponse desc]
             (InsertManyPartial
                ((ids @ ids_reported resp) @ concat (map ids_reported resps') @ ids_reported (desc_rawResponse desc))
                (length ((ids @ ids_reported resp) @ concat (map ids_reported resps') @ ids_reported (desc_rawResponse desc))))),
       \<lparr>srv = srv_after h (srv ?w') ?rest, sent = sent ?w' @ ?rest\<rparr>)"
    by (rule Suc.IH) (use rest kl in simp_all)
  show ?case
    unfolding insertManyOrdered_loop_ok[where h = h and w = w and n = n, OF il out] IH
    by (simp add: ch resps srv_after_Cons)
qed

lemma insertManyOrdered_loop_answers_ok:
  assumes "0 < n"
    and "answers h (srv w) (map ordered_chunk (chunks n (drop i documents))) = map Resolved resps"
  shows "insertManyOrdered_loop h documents n i ids w =
     Some (Inr (ids @ concat (map ids_reported resps)),
       \<lparr>srv = srv_after h (srv w) (map ordered_chunk (chunks n (drop i documents))),
        sent = sent w @ map ordered_chunk (chunks n (drop i documents))\<rparr>)"
  using assms(2)
proof (induction resps arbitrary: i w ids)
  case Nil
  then have "length (chunks n (drop i documents)) = 0"
    by (metis length_answers length_map list.size(3))
  then have "\<not> i < length documents" using assms(1) chunks_nonempty[of n "drop i documents"] by auto
  then show ?case by (simp add: insertManyOrdered_loop_done chunks_done)
next
  case (Cons resp resps)
  then have "length (chunks n (drop i documents)) = Suc (length resps)"
    by (metis length_answers length_map length_Cons)
  then have "chunks n (drop i documents) \<noteq> []" by auto
  then have il: "i < length documents" by (simp add: chunks_nonempty)
  note ch = chunks_drop[OF assms(1) il]
  let ?c = "ordered_chunk (slice documents i (i + n))"
  let ?rest = "map ordered_chunk (chunks n (drop (i + n) documents))"
  from Cons.prems have out: "fst (h (srv w) ?c) = Resolved resp"
    and rest: "answers h (snd (h (srv w) ?c)) ?rest = map Resolved resps"
    by (simp_all add: ch answers_Cons)
  let ?w' = "\<lparr>srv = snd (h (srv w) ?c), sent = sent w @ [?c]\<rparr>"
  have IH: "insertManyOrdered_loop h documents n (i + n) (ids @ ids_reported resp) ?w' =
     Some (Inr ((ids @ ids_reported resp) @ concat (map ids_reported resps)),
       \<lparr>srv = srv_after h (srv ?w') ?rest, sent = sent ?w' @ ?rest\<rparr>)"
    by (rule Cons.IH) (use rest in simp)
  show ?case
    unfolding insertManyOrdered_loop_ok[where h = h and w = w and n = n, OF il out] IH
    by (simp add: ch srv_after_Cons)
qed

subsection \<open>Evaluation\<close>

lemmas run_defs = bulkWriteOrdered_def bulkWriteOrdered_loop.simps executeCommand_def
  with_id_def doc_id_def obj_get_def object_prototype_get_def object_prototype_functions_def
  js_def failure_of_def ok_response_def addToBulkWriteResult_def new_BulkWriteResult_def
  empty_status_def or_nil_def or_zero_def has_upsertedId_def Let_def
  mkRespErrorFromResponse_def mkRespErrorFromResponses_def ordered_chunk_def
  answers_Cons srv_after_Cons

subsection \<open>Claim about ordered execution\<close>

text \<open>
  Claim C1. \<open>bulkWriteOrdered\<close> sends the operations one at a time in index order:
  whatever the outcome, the commands sent are a prefix \<open>0 .. n - 1\<close> of the operations,
  all of them when it returns a result. When the service answers the operations before
  index \<open>k\<close> with the statuses \<open>sts\<close> and operation \<open>k\<close> with an operational error,
  the commands sent are exactly operations \<open>0 .. k\<close>, none after \<open>k\<close>, and one
  \<open>BulkWriteError\<close> is thrown for the failed command; its partial result is the sum of
  the deltas of \<open>sts\<close> and of the status of the failing response, when it has one,
  which counts as that of operation \<open>k\<close>. \<open>insertManyOrdered\<close> does the same with the
  chunks of the documents: when chunk \<open>k\<close> is the first to fail, chunks \<open>0 .. k\<close> have
  been sent and one \<open>InsertManyError\<close> carries the ids reported for the chunks before
  \<open>k\<close> followed by those the failing response reports. For \<open>insertOne(A)\<close>,
  \<open>insertOne(A)\<close>, \<open>insertOne(B)\<close> the second operation fails, \<open>B\<close> is never sent and
  the partial result has \<open>insertedCount = 1\<close>.
\<close>

theorem bulkWriteOrdered_stops_at_first_failure:
  "(k < length operations
      \<and> answers h (srv w) (take (Suc k) operations)
          = map ok_response sts @ [Rejected (ResponseError desc)]
    \<longrightarrow> bulkWriteOrdered h operations w =
          (Inl (CumulativeError BulkWriteError [desc_command desc] [desc_rawResponse desc]
             (BulkWritePartial (sum_of_deltas
                (sts @ (case status (desc_rawResponse desc) of None \<Rightarrow> [] | Some st \<Rightarrow> [st]))))),
           \<lparr>srv = srv_after h (srv w) (take (Suc k) operations),
            sent = sent w @ take (Suc k) operations\<rparr>))
   \<and> (bulkWriteOrdered h operations w = (res, w')
    \<longrightarrow> (\<exists>n. n \<le> length operations \<and> sent w' = sent w @ take n operations
             \<and> (isl res \<or> n = length operations)))
   \<and> (0 < chunkSize \<and> j < length (chunks chunkSize documents)
      \<and> answers h (srv w) (map ordered_chunk (take (Suc j) (chunks chunkSize documents)))
          = map Resolved resps @ [Rejected (ResponseError desc)]
    \<longrightarrow> insertManyOrdered h documents chunkSize w =
          Some (Inl (CumulativeError InsertManyError [desc_command desc] [desc_rawResponse desc]
                  (InsertManyPartial
                     (concat (map ids_reported resps) @ ids_reported (desc_rawResponse desc))
                     (length (concat (map ids_reported resps) @ ids_reported (desc_rawResponse desc))))),
            \<lparr>srv = srv_after h (srv w) (map ordered_chunk (take (Suc j) (chunks chunkSize documents))),
             sent = sent w @ map ordered_chunk (take (Suc j) (chunks chunkSize documents))\<rparr>))
   \<and> bulkWriteOrdered id_service abc_ops \<lparr>srv = [], sent = []\<rparr>
       = (Inl (CumulativeError BulkWriteError [InsertOneCommand (with_id ''A'')] [\<lparr>status = None\<rparr>]
                 (BulkWritePartial
                    \<lparr>deletedCount = 0, insertedCount = 1, matchedCount = 0, modifiedCount = 0,
                     upsertedCount = 0, upsertedIds = Map.empty,
                     raw = [empty_status\<lparr>st_insertedIds := Some [JStr (js ''A'')]\<rparr>]\<rparr>)),
          \<lparr>srv = [JStr (js ''A'')],
           sent = [InsertOneCommand (with_id ''A''), InsertOneCommand (with_id ''A'')]\<rparr>)
   \<and> chunks 2 [JNum 1, JNum 2, JNum 3, JNum 4, JNum 5]
       = [[JNum 1, JNum 2], [JNum 3, JNum 4], [JNum 5]]"
proof (intro conjI impI)
  assume a: "k < length operations
      \<and> answers h (srv w) (take (Suc k) operations)
          = map ok_response sts @ [Rejected (ResponseError desc)]"
  then show "bulkWriteOrdered h operations w =
          (Inl (CumulativeError BulkWriteError [desc_command desc] [desc_rawResponse desc]
             (BulkWritePartial (sum_of_deltas
                (sts @ (case status (desc_rawResponse desc) of None \<Rightarrow> [] | Some st \<Rightarrow> [st]))))),
           \<lparr>srv = srv_after h (srv w) (take (Suc k) operations),
            sent = sent w @ take (Suc k) operations\<rparr>)"
    using bulkWriteOrdered_loop_answers_fail[of h w k 0 operations sts desc "[]"]
    by (simp add: bulkWriteOrdered_def sum_of_deltas_nil)
next
  assume "bulkWriteOrdered h operations w = (res, w')"
  then have "bulkWriteOrdered_loop h operations 0 new_BulkWriteResult w = (res, w')"
    by (simp add: bulkWriteOrdered_def)
  from bulkWriteOrdered_loop_sent[OF this]
  show "\<exists>n. n \<le> length operations \<and> sent w' = sent w @ take n operations
             \<and> (isl res \<or> n = length operations)" by auto
next
  assume a: "0 < chunkSize \<and> j < length (chunks chunkSize documents)
      \<and> answers h (srv w) (map ordered_chunk (take (Suc j) (chunks chunkSize documents)))
          = map Resolved resps @ [Rejected (ResponseError desc)]"
  then show "insertManyOrdered h documents chunkSize w =
          Some (Inl (CumulativeError InsertManyError [desc_command desc] [desc_rawResponse desc]
                  (InsertManyPartial
                     (concat (map ids_reported resps) @ ids_reported (desc_rawResponse desc))
                     (length (concat (map ids_reported resps) @ ids_reported (desc_rawResponse desc))))),
            \<lparr>srv = srv_after h (srv w) (map ordered_chunk (take (Suc j) (chunks chunkSize documents))),
             sent = sent w @ map ordered_chunk (take (Suc j) (chunks chunkSize documents))\<rparr>)"
    using insertManyOrdered_loop_answers_fail[of chunkSize h w j 0 documents resps desc "[]"]
    by (simp add: insertManyOrdered_def)
next
  show "bulkWriteOrdered id_service abc_ops \<lparr>srv = [], sent = []\<rparr>
       = (Inl (CumulativeError BulkWriteError [InsertOneCommand (with_id ''A'')] [\<lparr>status = None\<rparr>]
                 (BulkWritePartial
                    \<lparr>deletedCount = 0, insertedCount = 1, matchedCount = 0, modifiedCount = 0,
                     upsertedCount = 0, upsertedIds = Map.empty,
                     raw = [empty_status\<lparr>st_insertedIds := Some [JStr (js ''A'')]\<rparr>]\<rparr>)),
          \<lparr>srv = [JStr (js ''A'')],
           sent = [InsertOneCommand (with_id ''A''), InsertOneCommand (with_id ''A'')]\<rparr>)"
    by (simp add: run_defs abc_ops_def)
next
  show "chunks 2 [JNum 1, JNum 2, JNum 3, JNum 4, JNum 5]
       = [[JNum 1, JNum 2], [JNum 3, JNum 4], [JNum 5]]"
    by (simp add: chunks.simps)
qed

text \<open>
  The theorem of claim C1 at the operations \<open>insertOne(A)\<close>,
  \<open>updateOne({_id: B}, upsert)\<close>, a failing \<open>updateMany\<close> and \<open>insertOne(C)\<close>: the
  third fails with a status of its own, which is counted, and \<open>C\<close> is never sent; and
  at the documents \<open>A, B, C, A, D\<close> in chunks of two: the second chunk fails after
  \<open>C\<close>, and \<open>D\<close> is never sent.
\<close>

theorem bulkWriteOrdered_stops_at_first_failure_witness:
  "2 < length upsert_ops
   \<and> answers id_service [] (take (Suc 2) upsert_ops)
       = map ok_response
           [empty_status\<lparr>st_insertedIds := Some [JStr (js ''A'')]\<rparr>,
            empty_status\<lparr>st_matchedCount := Some 0, st_modifiedCount := Some 0,
                          st_upsertedId := Some (JStr (js ''B''))\<rparr>]
         @ [Rejected (ResponseError
              \<lparr>desc_command = UpdateManyCommand [] JNull False,
               desc_rawResponse = \<lparr>status = Some (empty_status\<lparr>st_matchedCount := Some 2,
                                                                st_modifiedCount := Some 0\<rparr>)\<rparr>\<rparr>)]
   \<and> bulkWriteOrdered id_service upsert_ops \<lparr>srv = [], sent = []\<rparr>
       = (Inl (CumulativeError BulkWriteError [UpdateManyCommand [] JNull False]
                 [\<lparr>status = Some (empty_status\<lparr>st_matchedCount := Some 2, st_modifiedCount := Some 0\<rparr>)\<rparr>]
                 (BulkWritePartial (sum_of_deltas
                    [empty_status\<lparr>st_insertedIds := Some [JStr (js ''A'')]\<rparr>,
                     empty_status\<lparr>st_matchedCount := Some 0, st_modifiedCount := Some 0,
                                   st_upsertedId := Some (JStr (js ''B''))\<rparr>,
                     empty_status\<lparr>st_matchedCount := Some 2, st_modifiedCount := Some 0\<rparr>]))),
          \<lparr>srv = [JStr (js ''A''), JStr (js ''B'')], sent = take 3 upsert_ops\<rparr>)
   \<and> insertedCount (sum_of_deltas
        [empty_status\<lparr>st_insertedIds := Some [JStr (js ''A'')]\<rparr>,
         empty_status\<lparr>st_matchedCount := Some 0, st_modifiedCount := Some 0,
                       st_upsertedId := Some (JStr (js ''B''))\<rparr>,
         empty_status\<lparr>st_matchedCount := Some 2, st_modifiedCount := Some 0\<rparr>]) = 1
   \<and> matchedCount (sum_of_deltas
        [empty_status\<lparr>st_insertedIds := Some [JStr (js ''A'')]\<rparr>,
         empty_status\<lparr>st_matchedCount := Some 0, st_modifiedCount := Some 0,
                       st_upsertedId := Some (JStr (js ''B''))\<rparr>,
         empty_status\<lparr>st_matchedCount := Some 2, st_modifiedCount := Some 0\<rparr>]) = 2
   \<and> (\<exists>n. n \<le> length upsert_ops \<and> take 3 upsert_ops = [] @ take n upsert_ops)
   \<and> insertManyOrdered id_service
        [with_id ''A'', with_id ''B'', with_id ''C'', with_id ''A'', with_id ''D''] 2
        \<lparr>srv = [], sent = []\<rparr>
       = Some (Inl (CumulativeError InsertManyError
                 [InsertManyCommand [with_id ''C'', with_id ''A''] True]
                 [\<lparr>status = Some (empty_status\<lparr>st_insertedIds := Some [JStr (js ''C'')]\<rparr>)\<rparr>]
                 (InsertManyPartial [JStr (js ''A''), JStr (js ''B''), JStr (js ''C'')] 3)),
          \<lparr>srv = [JStr (js ''A''), JStr (js ''B''), JStr (js ''C'')],
           sent = [InsertManyCommand [with_id ''A'', with_id ''B''] True,
                   InsertManyCommand [with_id ''C'', with_id ''A''] True]\<rparr>)"
proof -
  let ?stA = "empty_status\<lparr>st_insertedIds := Some [JStr (js ''A'')]\<rparr>"
  let ?stB = "empty_status\<lparr>st_matchedCount := Some 0, st_modifiedCount := Some 0,
                          st_upsertedId := Some (JStr (js ''B''))\<rparr>"
  let ?stM = "empty_status\<lparr>st_matchedCount := Some 2, st_modifiedCount := Some 0\<rparr>"
  let ?desc = "\<lparr>desc_command = UpdateManyCommand [] JNull False,
               desc_rawResponse = \<lparr>status = Some ?stM\<rparr>\<rparr>"
  let ?docs = "[with_id ''A'', with_id ''B'', with_id ''C'', with_id ''A'', with_id ''D'']"
  let ?descC = "\<lparr>desc_command = InsertManyCommand [with_id ''C'', with_id ''A''] True,
               desc_rawResponse = \<lparr>status = Some (empty_status\<lparr>st_insertedIds := Some [JStr (js ''C'')]\<rparr>)\<rparr>\<rparr>"
  have len: "2 < length upsert_ops" by (simp add: upsert_ops_def)
  have ans: "answers id_service [] (take (Suc 2) upsert_ops)
       = map ok_response [?stA, ?stB] @ [Rejected (ResponseError ?desc)]"
    by (simp add: run_defs upsert_ops_def)
  have after: "srv_after id_service [] (take (Suc 2) upsert_ops) = [JStr (js ''A''), JStr (js ''B'')]"
    by (simp add: run_defs upsert_ops_def)
  note A = bulkWriteOrdered_stops_at_first_failure
    [where k = 2 and operations = upsert_ops and h = id_service and w = "\<lparr>srv = [], sent = []\<rparr>"
       and sts = "[?stA, ?stB]" and desc = ?desc, THEN conjunct1, rule_format, OF conjI]
  have run: "bulkWriteOrdered id_service upsert_ops \<lparr>srv = [], sent = []\<rparr>
       = (Inl (CumulativeError BulkWriteError [UpdateManyCommand [] JNull False]
                 [\<lparr>status = Some ?stM\<rparr>]
                 (BulkWritePartial (sum_of_deltas [?stA, ?stB, ?stM]))),
          \<lparr>srv = [JStr (js ''A''), JStr (js ''B'')], sent = take 3 upsert_ops\<rparr>)"
    using A[OF len] ans after by simp
  note B = bulkWriteOrdered_stops_at_first_failure
    [where operations = upsert_ops and h = id_service and w = "\<lparr>srv = [], sent = []\<rparr>",
     THEN conjunct2, THEN conjunct1, rule_format, OF run]
  have pre: "\<exists>n. n \<le> length upsert_ops \<and> take 3 upsert_ops = [] @ take n upsert_ops"
    using B by simp
  have ins: "insertedCount (sum_of_deltas [?stA, ?stB, ?stM]) = 1"
    by (simp add: sum_of_deltas_def empty_status_def)
  have mat: "matchedCount (sum_of_deltas [?stA, ?stB, ?stM]) = 2"
    by (simp add: sum_of_deltas_def empty_status_def)
  have ch: "chunks 2 ?docs = [[with_id ''A'', with_id ''B''], [with_id ''C'', with_id ''A''], [with_id ''D'']]"
    by (simp add: chunks.simps)
  have ansC: "answers id_service [] (map ordered_chunk (take (Suc 1) (chunks 2 ?docs)))
       = map Resolved [\<lparr>status = Some (empty_status\<lparr>st_insertedIds := Some [JStr (js ''A''), JStr (js ''B'')]\<rparr>)\<rparr>]
         @ [Rejected (ResponseError ?descC)]"
    unfolding ch by (simp add: run_defs)
  have afterC: "srv_after id_service [] (map ordered_chunk (take (Suc 1) (chunks 2 ?docs)))
       = [JStr (js ''A''), JStr (js ''B''), JStr (js ''C'')]"
    unfolding ch by (simp add: run_defs)
  have hyp: "0 < (2::nat) \<and> 1 < length (chunks 2 ?docs)
      \<and> answers id_service (srv \<lparr>srv = [], sent = []\<rparr>) (map ordered_chunk (take (Suc 1) (chunks 2 ?docs)))
       = map Resolved [\<lparr>status = Some (empty_status\<lparr>st_insertedIds := Some [JStr (js ''A''), JStr (js ''B'')]\<rparr>)\<rparr>]
         @ [Rejected (ResponseError ?descC)]"
    using ansC by (simp add: ch)
  note C = bulkWriteOrdered_stops_at_first_failure
    [where chunkSize = 2 and j = 1 and documents = ?docs and h = id_service
       and w = "\<lparr>srv = [], sent = []\<rparr>"
       and resps = "[\<lparr>status = Some (empty_status\<lparr>st_insertedIds := Some [JStr (js ''A''), JStr (js ''B'')]\<rparr>)\<rparr>]"
       and desc = ?descC, THEN conjunct2, THEN conjunct2, THEN conjunct1, rule_format]
  have runC: "insertManyOrdered id_service ?docs 2 \<lparr>srv = [], sent = []\<rparr>
       = Some (Inl (CumulativeError InsertManyError
                 [InsertManyCommand [with_id ''C'', with_id ''A''] True]
                 [\<lparr>status = Some (empty_status\<lparr>st_insertedIds := Some [JStr (js ''C'')]\<rparr>)\<rparr>]
                 (InsertManyPartial [JStr (js ''A''), JStr (js ''B''), JStr (js ''C'')] 3)),
          \<lparr>srv = [JStr (js ''A''), JStr (js ''B''), JStr (js ''C'')],
           sent = [InsertManyCommand [with_id ''A'', with_id ''B''] True,
                   InsertManyCommand [with_id ''C'', with_id ''A''] True]\<rparr>)"
    using C[OF hyp] afterC by (simp add: ch ids_reported_def empty_status_def ordered_chunk_def)
  show ?thesis using len ans run ins mat pre runC by blast
qed

section \<open>Properties of \<open>deleteMany\<close>\<close>

text \<open>
  When the loop of \<open>deleteMany\<close> returns, it has sent its command some number of times,
  at least once when it was entered without a response.
\<close>

lemma deleteMany_loop_sent:
  assumes "deleteMany_loop h cmd resp numDeleted w = Some y"
  shows "\<exists>k. sent (snd y) = sent w @ replicate k cmd \<and> (resp = None \<longrightarrow> 0 < k)"
proof (rule deleteMany_loop.raw_induct
    [where P = "\<lambda>h cmd resp numDeleted w y.
                 \<exists>k. sent (snd y) = sent w @ replicate k cmd \<and> (resp = None \<longrightarrow> 0 < k)",
     OF _ assms], goal_cases)
  case (1 loop h cmd resp numDeleted w y)
  show ?case
  proof (cases "case resp of None \<Rightarrow> True | Some r \<Rightarrow> moreData r")
    case False
    then have "resp \<noteq> None" by (auto split: option.splits)
    moreover from False 1(2) have "y = (Inr numDeleted, w)" by simp
    ultimately show ?thesis by (intro exI[of _ 0]) simp
  next
    case True
    obtain out w' where ex: "executeCommand h cmd w = (out, w')" by (cases "executeCommand h cmd w")
    have s: "sent w' = sent w @ [cmd]" using executeCommand_sent[OF ex] .
    show ?thesis
    proof (cases out)
      case (Resolved resp')
      with 1(2) True ex have "loop h cmd (Some resp') (numDeleted + resp_deletedCount resp') w' = Some y"
        by simp
      from 1(1)[OF this] obtain k where "sent (snd y) = sent w' @ replicate k cmd" by auto
      then have "sent (snd y) = sent w @ replicate (Suc k) cmd" using s
        by (simp add: replicate_app_Cons_same)
      then show ?thesis by blast
    next
      case (Rejected t)
      with 1(2) True ex have "sent (snd y) = sent w @ replicate (Suc 0) cmd"
        using s by (cases t) auto
      then show ?thesis by blast
    qed
  qed
qed

text \<open>
  Claim C7. \<open>deleteMany\<close> with an empty filter (or with none, which defaults to the
  empty filter) throws an \<open>Error\<close> whose message says to use \<open>deleteAll\<close> instead; it
  does so before any \<open>executeCommand\<close>: no command has been sent and the service has
  not changed. With any other filter, a call that returns has sent its command at
  least once. (The function is \<open>async\<close>: the throw happens in the synchronous part of
  its body and reaches the caller as the rejection of the promise.)
\<close>

theorem deleteMany_empty_filter_fails_fast:
  "deleteMany h None w = Some (Inl (JsError (Error empty_filter_message)), w)
   \<and> deleteMany h (Some []) w = Some (Inl (JsError (Error empty_filter_message)), w)
   \<and> (\<exists>pre post. empty_filter_message = pre @ ''use deleteAll instead'' @ post)
   \<and> (f \<noteq> [] \<and> deleteMany h (Some f) w = Some (res, w')
        \<longrightarrow> (\<exists>k. 0 < k \<and> sent w' = sent w @ replicate k (DeleteManyCommand f)))"
proof (intro conjI impI)
  show "deleteMany h None w = Some (Inl (JsError (Error empty_filter_message)), w)"
    by (simp add: deleteMany_def)
  show "deleteMany h (Some []) w = Some (Inl (JsError (Error empty_filter_message)), w)"
    by (simp add: deleteMany_def)
  show "\<exists>pre post. empty_filter_message = pre @ ''use deleteAll instead'' @ post"
    unfolding empty_filter_message_def by (metis append.assoc)
next
  assume a: "f \<noteq> [] \<and> deleteMany h (Some f) w = Some (res, w')"
  then have "deleteMany_loop h (DeleteManyCommand f) None 0 w = Some (res, w')"
    by (auto simp: deleteMany_def)
  from deleteMany_loop_sent[OF this]
  show "\<exists>k. 0 < k \<and> sent w' = sent w @ replicate k (DeleteManyCommand f)" by auto
qed

text \<open>
  The theorem of claim C7 at the filter \<open>{_id: 'A'}\<close>: one command is sent.
\<close>

theorem deleteMany_empty_filter_fails_fast_witness:
  "[(js ''_id'', JStr (js ''A''))] \<noteq> []
   \<and> deleteMany id_service (Some [(js ''_id'', JStr (js ''A''))]) \<lparr>srv = [], sent = []\<rparr>
       = Some (Inr 0, \<lparr>srv = [], sent = [DeleteManyCommand [(js ''_id'', JStr (js ''A''))]]\<rparr>)
   \<and> (\<exists>k. 0 < k \<and> [DeleteManyCommand [(js ''_id'', JStr (js ''A''))]]
                    = [] @ replicate k (DeleteManyCommand [(js ''_id'', JStr (js ''A''))]))"
proof -
  have run: "deleteMany id_service (Some [(js ''_id'', JStr (js ''A''))]) \<lparr>srv = [], sent = []\<rparr>
       = Some (Inr 0, \<lparr>srv = [], sent = [DeleteManyCommand [(js ''_id'', JStr (js ''A''))]]\<rparr>)"
    by (simp add: deleteMany_def deleteMany_loop.simps executeCommand_def moreData_def
        resp_deletedCount_def empty_status_def or_zero_def)
  from deleteMany_empty_filter_fails_fast
    [where f = "[(js ''_id'', JStr (js ''A''))]" and h = id_service and w = "\<lparr>srv = [], sent = []\<rparr>"
       and res = "Inr 0" and w' = "\<lparr>srv = [], sent = [DeleteManyCommand [(js ''_id'', JStr (js ''A''))]]\<rparr>"]
    run
  show ?thesis by simp
qed

end
